theory Spec2Isabelle
  imports Complex_Main
begin

section \<open>Record model (src/server/entitiesDB.js, lines 23-41)\<close>

text \<open>
  The two mongoose schemas. A Date is its number of milliseconds since the epoch, an
  integer; a Number that holds a count is an integer, the sentiment is an exact
  rational (the rounding of doubles is not modelled). A string is a list of
  characters, and case mapping acts on the ASCII letters.
\<close>

record article =
  a_id :: string
  a_title :: string
  a_date :: int
  a_url :: string

record entity =
  e_id :: string
  e_text :: string
  e_count :: int
  e_sentiment :: rat
  e_date :: int
  e_article_id :: string

text \<open>The two collections. The order of a list is the order of insertion.\<close>

record store =
  articles :: "article list"
  entities :: "entity list"

section \<open>Documents of the enrichment service\<close>

text \<open>
  The shape that \<open>_adaptFromAlchemyDoc\<close> reads: \<open>doc.id\<close>, \<open>doc.timestamp\<close>,
  and, each of them optional, \<open>doc.source\<close>, \<open>doc.source.enriched\<close> and
  \<open>doc.source.enriched.url\<close>; the last one is the object that carries \<open>title\<close>,
  \<open>url\<close> and \<open>entities\<close>. A missing property is \<open>None\<close>.
\<close>

record sentiment_obj =
  score :: rat

record alchemy_entity =
  ae_text :: string
  ae_count :: int
  ae_sentiment :: sentiment_obj

record enriched_url =
  eu_title :: string
  eu_url :: string
  eu_entities :: "alchemy_entity list"

record enriched =
  enr_url :: "enriched_url option"

record source =
  src_enriched :: "enriched option"

record alchemy_doc =
  doc_id :: string
  doc_timestamp :: int
  doc_source :: "source option"

section \<open>The document adapter (lines 226-256)\<close>

text \<open>\<open>doc.source && doc.source.enriched && doc.source.enriched.url\<close>\<close>

definition enrichedUrl_of :: "alchemy_doc \<Rightarrow> enriched_url option" where
  "enrichedUrl_of doc =
     (case doc_source doc of
        None \<Rightarrow> None
      | Some s \<Rightarrow> (case src_enriched s of None \<Rightarrow> None | Some en \<Rightarrow> enr_url en))"

text \<open>\<open>new Date(doc.timestamp * 1000)\<close>: seconds to milliseconds.\<close>

definition date_of_timestamp :: "int \<Rightarrow> int" where
  "date_of_timestamp ts = ts * 1000"

text \<open>The function mapped over \<open>enrichedUrl.entities\<close>.\<close>

definition adapt_entity :: "alchemy_doc \<Rightarrow> alchemy_entity \<Rightarrow> entity" where
  "adapt_entity doc e =
     \<lparr> e_id = ae_text e @ doc_id doc,
       e_text = ae_text e,
       e_count = ae_count e,
       e_sentiment = score (ae_sentiment e),
       e_date = date_of_timestamp (doc_timestamp doc),
       e_article_id = doc_id doc \<rparr>"

text \<open>
  \<open>_adaptFromAlchemyDoc\<close>. The function returns \<open>undefined\<close> (here \<open>None\<close>) when
  \<open>enrichedUrl\<close> is falsy and when no entity is left after the filter.
\<close>

definition adaptFromAlchemyDoc :: "alchemy_doc \<Rightarrow> (article \<times> entity list) option" where
  "adaptFromAlchemyDoc doc =
     (case enrichedUrl_of doc of
        None \<Rightarrow> None
      | Some enrichedUrl \<Rightarrow>
          (let art = \<lparr> a_id = doc_id doc,
                       a_title = eu_title enrichedUrl,
                       a_date = date_of_timestamp (doc_timestamp doc),
                       a_url = eu_url enrichedUrl \<rparr>;
               ents = filter (\<lambda>e. length (e_text e) > 1)
                        (map (adapt_entity doc) (eu_entities enrichedUrl))
           in if length ents \<noteq> 0 then Some (art, ents) else None))"

section \<open>Ingestion (lines 195-221)\<close>

text \<open>
  \<open>findByIdAndUpdate(id, primitive, {upsert: true})\<close>: the record whose key is the
  primitive's is overwritten in place with all fields of the primitive; when there is
  none the primitive is inserted. The requests of one call are applied in the order in
  which the code issues them.
\<close>

fun upsert :: "('a \<Rightarrow> string) \<Rightarrow> 'a \<Rightarrow> 'a list \<Rightarrow> 'a list" where
  "upsert key x [] = [x]"
| "upsert key x (y # ys) = (if key y = key x then x # ys else y # upsert key x ys)"

definition upsert_all :: "('a \<Rightarrow> string) \<Rightarrow> 'a list \<Rightarrow> 'a list \<Rightarrow> 'a list" where
  "upsert_all key xs s = foldl (\<lambda>acc x. upsert key x acc) s xs"

text \<open>The body of \<open>docs.forEach\<close>; a falsy \<open>doc\<close> (\<open>None\<close>) is skipped.\<close>

definition upload_doc :: "store \<Rightarrow> alchemy_doc option \<Rightarrow> store" where
  "upload_doc s d =
     (case d of
        None \<Rightarrow> s
      | Some doc \<Rightarrow>
          (case adaptFromAlchemyDoc doc of
             None \<Rightarrow> s
           | Some (articlePrimitive, entityPrimitives) \<Rightarrow>
               \<lparr> articles = upsert a_id articlePrimitive (articles s),
                 entities = upsert_all e_id entityPrimitives (entities s) \<rparr>))"

definition uploadArticlesFromDocs :: "alchemy_doc option list \<Rightarrow> store \<Rightarrow> store" where
  "uploadArticlesFromDocs docs s = foldl upload_doc s docs"

text \<open>
  The records that a batch writes, in the order of the writes: for comparison with the
  store after \<open>uploadArticlesFromDocs\<close>.
\<close>

definition doc_writes :: "alchemy_doc option \<Rightarrow> article list \<times> entity list" where
  "doc_writes d =
     (case d of
        None \<Rightarrow> ([], [])
      | Some doc \<Rightarrow>
          (case adaptFromAlchemyDoc doc of None \<Rightarrow> ([], []) | Some (a, es) \<Rightarrow> ([a], es)))"

definition batch_articles :: "alchemy_doc option list \<Rightarrow> article list" where
  "batch_articles docs = concat (map (\<lambda>d. fst (doc_writes d)) docs)"

definition batch_mentions :: "alchemy_doc option list \<Rightarrow> entity list" where
  "batch_mentions docs = concat (map (\<lambda>d. snd (doc_writes d)) docs)"

section \<open>Case mapping\<close>

text \<open>
  \<open>$toLower\<close> of the aggregation pipeline and the case folding of a regular
  expression with the flag \<open>i\<close> (which compares the upper-case forms), on the
  ASCII letters.
\<close>

definition upper_letters :: string where
  "upper_letters = ''ABCDEFGHIJKLMNOPQRSTUVWXYZ''"

definition lower_letters :: string where
  "lower_letters = ''abcdefghijklmnopqrstuvwxyz''"

definition toLower_char :: "char \<Rightarrow> char" where
  "toLower_char c = (case map_of (zip upper_letters lower_letters) c of None \<Rightarrow> c | Some d \<Rightarrow> d)"

definition toLower :: "string \<Rightarrow> string" where
  "toLower s = map toLower_char s"

definition canonicalize :: "char \<Rightarrow> char" where
  "canonicalize c = (case map_of (zip lower_letters upper_letters) c of None \<Rightarrow> c | Some d \<Rightarrow> d)"

section \<open>Query arguments\<close>

text \<open>
  \<open>x || d\<close> for a numeric argument that may be absent: \<open>None\<close> is an absent
  (undefined or null) argument; an argument that is the number 0 is falsy as well.
\<close>

definition or_default :: "'a::zero option \<Rightarrow> 'a \<Rightarrow> 'a" where
  "or_default x d = (case x of None \<Rightarrow> d | Some n \<Rightarrow> if n = 0 then d else n)"

text \<open>\<open>{ date: { $gte: new Date(start), $lt: new Date(end) } }\<close>\<close>

definition date_in :: "int \<Rightarrow> int \<Rightarrow> entity \<Rightarrow> bool" where
  "date_in t_start t_end e = (t_start \<le> e_date e \<and> e_date e < t_end)"

section \<open>Aggregation (lines 80-100)\<close>

text \<open>
  The \<open>$group\<close> stage keeps one accumulator per key: the sum of \<open>count\<close> for
  \<open>$sum\<close>, and the sum and the number of the \<open>sentiment\<close> values for \<open>$avg\<close>.
  The store leaves the order of the groups open; here a group stands where its first
  mention came.
\<close>

record group_acc =
  g_key :: string
  g_sum :: int
  g_sent_sum :: rat
  g_n :: nat

record agg_row =
  r_id :: string
  r_value :: int
  r_sentiment :: rat

text \<open>The key of the \<open>$group\<close> stage: \<open>{ '$toLower': '$text' }\<close>.\<close>

definition entity_key :: "entity \<Rightarrow> string" where
  "entity_key e = toLower (e_text e)"

definition new_group :: "entity \<Rightarrow> group_acc" where
  "new_group e =
     \<lparr> g_key = entity_key e, g_sum = e_count e, g_sent_sum = e_sentiment e, g_n = 1 \<rparr>"

definition add_to_group :: "entity \<Rightarrow> group_acc \<Rightarrow> group_acc" where
  "add_to_group e g =
     g \<lparr> g_sum := g_sum g + e_count e,
         g_sent_sum := g_sent_sum g + e_sentiment e,
         g_n := Suc (g_n g) \<rparr>"

fun group_add :: "entity \<Rightarrow> group_acc list \<Rightarrow> group_acc list" where
  "group_add e [] = [new_group e]"
| "group_add e (g # gs) =
     (if g_key g = entity_key e then add_to_group e g # gs else g # group_add e gs)"

definition finish_group :: "group_acc \<Rightarrow> agg_row" where
  "finish_group g =
     \<lparr> r_id = g_key g, r_value = g_sum g, r_sentiment = g_sent_sum g / of_nat (g_n g) \<rparr>"

definition group_stage :: "entity list \<Rightarrow> agg_row list" where
  "group_stage es = map finish_group (foldl (\<lambda>gs e. group_add e gs) [] es)"

text \<open>
  \<open>{ $sort: { value: -1 } }\<close>, then \<open>{ $limit: limit }\<close>. Rows of equal value
  keep their order here (the store leaves it open), and the limit is a natural number.
\<close>

definition sort_stage :: "agg_row list \<Rightarrow> agg_row list" where
  "sort_stage rows = sort_key (\<lambda>r. - r_value r) rows"

definition limit_stage :: "nat \<Rightarrow> agg_row list \<Rightarrow> agg_row list" where
  "limit_stage n rows = take n rows"

text \<open>The mentions that pass the \<open>$match\<close> stage of \<open>aggregateEntities\<close>.\<close>

definition aggregate_matched :: "int option \<Rightarrow> int option \<Rightarrow> store \<Rightarrow> entity list" where
  "aggregate_matched start end_arg s =
     filter (date_in (or_default start 0) (or_default end_arg 9999999999999)) (entities s)"

definition aggregateEntities ::
    "int option \<Rightarrow> int option \<Rightarrow> nat option \<Rightarrow> store \<Rightarrow> agg_row list" where
  "aggregateEntities start end_arg limit s =
     limit_stage (or_default limit 100)
       (sort_stage (group_stage (aggregate_matched start end_arg s)))"

section \<open>The aggregation in the words of the specification\<close>

text \<open>
  For comparison with the pipeline above: the mentions of a window, the mentions of a
  group (those whose lower-cased text is the key), the sum of their counts and the
  arithmetic mean of their sentiments, and the row of a group.
\<close>

definition spec_window :: "int \<Rightarrow> int \<Rightarrow> store \<Rightarrow> entity list" where
  "spec_window t_start t_end s = filter (\<lambda>e. t_start \<le> e_date e \<and> e_date e < t_end) (entities s)"

definition spec_members :: "string \<Rightarrow> entity list \<Rightarrow> entity list" where
  "spec_members k es = filter (\<lambda>e. toLower (e_text e) = k) es"

definition spec_totalCount :: "string \<Rightarrow> entity list \<Rightarrow> int" where
  "spec_totalCount k es = sum_list (map e_count (spec_members k es))"

definition spec_averageSentiment :: "string \<Rightarrow> entity list \<Rightarrow> rat" where
  "spec_averageSentiment k es =
     sum_list (map e_sentiment (spec_members k es)) / of_nat (length (spec_members k es))"

definition spec_row :: "entity list \<Rightarrow> string \<Rightarrow> agg_row" where
  "spec_row es k =
     \<lparr> r_id = k, r_value = spec_totalCount k es, r_sentiment = spec_averageSentiment k es \<rparr>"

definition spec_keys :: "entity list \<Rightarrow> string set" where
  "spec_keys es = (\<lambda>e. toLower (e_text e)) ` set es"

text \<open>The accumulator that the \<open>$group\<close> stage should hold for a key.\<close>

definition spec_acc :: "entity list \<Rightarrow> string \<Rightarrow> group_acc" where
  "spec_acc es k =
     \<lparr> g_key = k, g_sum = spec_totalCount k es,
       g_sent_sum = sum_list (map e_sentiment (spec_members k es)),
       g_n = length (spec_members k es) \<rparr>"

section \<open>Regular expressions\<close>

text \<open>
  \<open>new RegExp('^' + entity + '$', 'i')\<close> takes the entity text as the source of a
  pattern. The fragment modelled here has the assertions \<open>^\<close> and \<open>$\<close>, the
  wildcard \<open>.\<close>, the alternation \<open>|\<close> and literal characters; a source with
  another syntax character (backslash, a quantifier, a bracket) is outside the
  fragment, and \<open>RegExp_i\<close> is \<open>None\<close> there. The pattern is matched as
  ECMAScript matches it: \<open>^\<close> holds at the start of the text and \<open>$\<close> at its
  end, \<open>.\<close> stands for one character that ends no line, and with the flag \<open>i\<close>
  two characters agree when their upper-case forms do.
\<close>

datatype re_term = Assert_start | Assert_end | Any_char | Lit char

definition outside_fragment :: "char list" where
  "outside_fragment = CHR 0x5C # ''*+?()[]{}''"

definition term_of_char :: "char \<Rightarrow> re_term" where
  "term_of_char c =
     (if c = CHR ''^'' then Assert_start
      else if c = CHR ''$'' then Assert_end
      else if c = CHR ''.'' then Any_char
      else Lit c)"

fun parse_alternative :: "string \<Rightarrow> re_term list option" where
  "parse_alternative [] = Some []"
| "parse_alternative (c # cs) =
     (if c \<in> set outside_fragment then None
      else (case parse_alternative cs of
              None \<Rightarrow> None
            | Some ts \<Rightarrow> Some (term_of_char c # ts)))"

fun split_bar :: "string \<Rightarrow> string list" where
  "split_bar [] = [[]]"
| "split_bar (c # cs) =
     (if c = CHR ''|'' then [] # split_bar cs
      else (case split_bar cs of [] \<Rightarrow> [[c]] | a # as \<Rightarrow> (c # a) # as))"

definition RegExp_i :: "string \<Rightarrow> re_term list list option" where
  "RegExp_i src = those (map parse_alternative (split_bar src))"

text \<open>The characters that \<open>.\<close> does not match: line feed and carriage return.\<close>

definition line_terminator :: "char \<Rightarrow> bool" where
  "line_terminator c = (c = CHR 0x0A \<or> c = CHR 0x0D)"

text \<open>One alternative against the input \<open>s\<close>, from the index \<open>i\<close> on.\<close>

fun match_terms :: "re_term list \<Rightarrow> string \<Rightarrow> nat \<Rightarrow> bool" where
  "match_terms [] s i = True"
| "match_terms (Assert_start # ts) s i = (i = 0 \<and> match_terms ts s i)"
| "match_terms (Assert_end # ts) s i = (i = length s \<and> match_terms ts s i)"
| "match_terms (Any_char # ts) s i =
     (i < length s \<and> \<not> line_terminator (s ! i) \<and> match_terms ts s (Suc i))"
| "match_terms (Lit c # ts) s i =
     (i < length s \<and> canonicalize (s ! i) = canonicalize c \<and> match_terms ts s (Suc i))"

text \<open>A string matches when some alternative matches from some index.\<close>

definition regex_test :: "re_term list list \<Rightarrow> string \<Rightarrow> bool" where
  "regex_test r s = list_ex (\<lambda>i. list_ex (\<lambda>a. match_terms a s i) r) [0..<Suc (length s)]"

text \<open>An entity text in which no character has a meaning in a pattern.\<close>

definition plain :: "string \<Rightarrow> bool" where
  "plain entity = list_all (\<lambda>c. c \<notin> set outside_fragment \<and> c \<notin> set ''^$.|'') entity"

section \<open>Lookup (lines 130-147)\<close>

text \<open>
  \<open>{ $group: { _id: '$text', value: { $push: '$article_id' } } }\<close>: one group per
  text (the case kept), with the article ids of its mentions in their order.
\<close>

fun push_add :: "entity \<Rightarrow> (string \<times> string list) list \<Rightarrow> (string \<times> string list) list" where
  "push_add e [] = [(e_text e, [e_article_id e])]"
| "push_add e ((k, v) # gs) =
     (if k = e_text e then (k, v @ [e_article_id e]) # gs else (k, v) # push_add e gs)"

definition push_stage :: "entity list \<Rightarrow> (string \<times> string list) list" where
  "push_stage es = foldl (\<lambda>gs e. push_add e gs) [] es"

text \<open>The mentions that pass the \<open>$match\<close> stage of \<open>getArticleIdsForEntity\<close>.\<close>

definition lookup_matched ::
    "re_term list list \<Rightarrow> int option \<Rightarrow> int option \<Rightarrow> store \<Rightarrow> entity list" where
  "lookup_matched re start end_arg s =
     filter (\<lambda>e. regex_test re (e_text e) \<and>
                  date_in (or_default start 0) (or_default end_arg 9999999999999) e)
       (entities s)"

datatype js_error = TypeError | Outside_fragment

text \<open>
  \<open>resolve(res[0].value)\<close>: \<open>res[0]\<close> is \<open>undefined\<close> when the pipeline yields no
  group, and reading \<open>value\<close> of it throws a TypeError.
\<close>

definition getArticleIdsForEntity ::
    "string \<Rightarrow> int option \<Rightarrow> int option \<Rightarrow> store \<Rightarrow> js_error + string list" where
  "getArticleIdsForEntity entity start end_arg s =
     (case RegExp_i (''^'' @ entity @ ''$'') of
        None \<Rightarrow> Inl Outside_fragment
      | Some re \<Rightarrow>
          (case push_stage (lookup_matched re start end_arg s) of
             [] \<Rightarrow> Inl TypeError
           | g # _ \<Rightarrow> Inr (snd g)))"

section \<open>Retention (lines 258-279)\<close>









text \<open>\<open>Entity.remove({$where: "this.text.length == 1"})\<close>\<close>

definition pruneCharEntities :: "store \<Rightarrow> store" where
  "pruneCharEntities s = s \<lparr> entities := filter (\<lambda>e. \<not> length (e_text e) = 1) (entities s) \<rparr>"

section \<open>Example data\<close>

text \<open>Concrete documents and stores, on which the theorems below are instantiated.\<close>

definition example_enriched :: enriched_url where
  "example_enriched =
     \<lparr> eu_title = ''Markets today'', eu_url = ''http://news.example/1'',
       eu_entities =
         [\<lparr> ae_text = ''IBM'', ae_count = 3, ae_sentiment = \<lparr> score = 1 / 2 \<rparr> \<rparr>,
          \<lparr> ae_text = ''a'', ae_count = 1, ae_sentiment = \<lparr> score = 0 \<rparr> \<rparr>] \<rparr>"

definition example_doc :: alchemy_doc where
  "example_doc =
     \<lparr> doc_id = ''doc1'', doc_timestamp = 1446336000,
       doc_source = Some \<lparr> src_enriched = Some \<lparr> enr_url = Some example_enriched \<rparr> \<rparr> \<rparr>"

text \<open>A document whose enriched object is present and lists one entity, of one character.\<close>

definition degenerate_doc :: alchemy_doc where
  "degenerate_doc =
     \<lparr> doc_id = ''doc2'', doc_timestamp = 1446336000,
       doc_source = Some \<lparr> src_enriched = Some \<lparr> enr_url = Some
         \<lparr> eu_title = ''Weather'', eu_url = ''http://news.example/2'',
           eu_entities = [\<lparr> ae_text = ''a'', ae_count = 1, ae_sentiment = \<lparr> score = 0 \<rparr> \<rparr>] \<rparr> \<rparr> \<rparr> \<rparr>"

text \<open>The article of \<open>example_doc\<close> again, analysed anew.\<close>

definition example_doc_again :: alchemy_doc where
  "example_doc_again =
     \<lparr> doc_id = ''doc1'', doc_timestamp = 1446422400,
       doc_source = Some \<lparr> src_enriched = Some \<lparr> enr_url = Some
         \<lparr> eu_title = ''Markets today (updated)'', eu_url = ''http://news.example/1'',
           eu_entities = [\<lparr> ae_text = ''IBM'', ae_count = 7, ae_sentiment = \<lparr> score = 1 / 4 \<rparr> \<rparr>] \<rparr> \<rparr> \<rparr> \<rparr>"

definition empty_store :: store where
  "empty_store = \<lparr> articles = [], entities = [] \<rparr>"

text \<open>Stored records with a given text, article and date.\<close>

definition mention :: "string \<Rightarrow> string \<Rightarrow> int \<Rightarrow> rat \<Rightarrow> int \<Rightarrow> entity" where
  "mention txt art n sent date =
     \<lparr> e_id = txt @ art, e_text = txt, e_count = n, e_sentiment = sent, e_date = date,
       e_article_id = art \<rparr>"

definition stored_article :: "string \<Rightarrow> int \<Rightarrow> article" where
  "stored_article art date =
     \<lparr> a_id = art, a_title = ''Title'', a_date = date, a_url = ''http://news.example/'' @ art \<rparr>"

text \<open>A store from before the filter of the adapter: texts of length 0, 1 and 3.\<close>

definition legacy_store :: store where
  "legacy_store =
     \<lparr> articles = [stored_article ''doc1'' 1446336000000],
       entities = [mention [] ''doc1'' 1 0 1446336000000,
                   mention ''a'' ''doc1'' 2 0 1446336000000,
                   mention ''IBM'' ''doc1'' 3 (1 / 2) 1446336000000] \<rparr>"






text \<open>
  Mentions for the ranking: ``IBM'' and ``ibm'' in two articles (30 and 20), ``Obama''
  (30), ``NASA'' (80) and ``FIFA'' (10) in the window from 1000 to 2000, and a later
  mention of ``FIFA'' (1000) dated exactly 2000.
\<close>

definition ranking_store :: store where
  "ranking_store =
     \<lparr> articles = [],
       entities = [mention ''IBM'' ''doc1'' 30 (1 / 2) 1000,
                   mention ''Obama'' ''doc1'' 30 0 1500,
                   mention ''ibm'' ''doc2'' 20 (1 / 4) 1999,
                   mention ''NASA'' ''doc2'' 80 (- 1 / 2) 1200,
                   mention ''FIFA'' ''doc3'' 10 (- 1) 1300,
                   mention ''FIFA'' ''doc4'' 1000 (- 1) 2000] \<rparr>"

text \<open>A mention dated exactly at the epoch.\<close>

definition epoch_store :: store where
  "epoch_store = \<lparr> articles = [], entities = [mention ''IBM'' ''doc0'' 1 0 0] \<rparr>"

text \<open>Mentions of ``USSR'', ``bankrupt'' and ``Bank'', in three articles.\<close>

definition lookup_store :: store where
  "lookup_store =
     \<lparr> articles = [],
       entities = [mention ''USSR'' ''doc9'' 1 0 1000,
                   mention ''bankrupt'' ''doc8'' 1 0 1000,
                   mention ''Bank'' ''doc7'' 1 0 1000] \<rparr>"

text \<open>
  A first analysis of the article ``doc1'' with two valid entities, and a store that
  holds an unrelated article ``doc0'' with its mention of ``NASA''.
\<close>

definition two_entity_doc :: alchemy_doc where
  "two_entity_doc =
     \<lparr> doc_id = ''doc1'', doc_timestamp = 1446336000,
       doc_source = Some \<lparr> src_enriched = Some \<lparr> enr_url = Some
         \<lparr> eu_title = ''Markets today'', eu_url = ''http://news.example/1'',
           eu_entities =
             [\<lparr> ae_text = ''IBM'', ae_count = 3, ae_sentiment = \<lparr> score = 1 / 2 \<rparr> \<rparr>,
              \<lparr> ae_text = ''NASA'', ae_count = 4, ae_sentiment = \<lparr> score = 0 \<rparr> \<rparr>] \<rparr> \<rparr> \<rparr> \<rparr>"

definition seeded_store :: store where
  "seeded_store =
     \<lparr> articles = [stored_article ''doc0'' 1446249600000],
       entities = [mention ''NASA'' ''doc0'' 2 0 1446249600000] \<rparr>"

section \<open>Upserts\<close>

lemma upsert_mem: "x \<in> set (upsert key x s)"
  by (induction s) auto

lemma set_upsert_subset: "set (upsert key x s) \<subseteq> insert x (set s)"
  by (induction s) auto

lemma keys_upsert: "key ` set (upsert key x s) = insert (key x) (key ` set s)"
  by (induction s) auto

lemma distinct_upsert:
  "distinct (map key s) \<Longrightarrow> distinct (map key (upsert key x s))"
proof (induction s)
  case Nil
  then show ?case by simp
next
  case (Cons y ys)
  have "key ` set (upsert key x ys) = insert (key x) (key ` set ys)"
    by (rule keys_upsert)
  with Cons show ?case by auto
qed

lemma upsert_absorb:
  "key x = key y \<Longrightarrow> upsert key y (upsert key x s) = upsert key y s"
  by (induction s) auto

lemma upsert_commute:
  "key x \<noteq> key y \<Longrightarrow> key y \<in> key ` set s \<Longrightarrow>
   upsert key y (upsert key x s) = upsert key x (upsert key y s)"
  by (induction s) auto

lemma upsert_all_Nil: "upsert_all key [] s = s"
  by (simp add: upsert_all_def)

lemma upsert_all_Cons: "upsert_all key (x # xs) s = upsert_all key xs (upsert key x s)"
  by (simp add: upsert_all_def)

lemma upsert_all_append:
  "upsert_all key (xs @ ys) s = upsert_all key ys (upsert_all key xs s)"
  by (simp add: upsert_all_def)

lemma keys_upsert_all:
  "key ` set (upsert_all key xs s) = key ` set xs \<union> key ` set s"
  by (induction xs arbitrary: s) (auto simp: upsert_all_Nil upsert_all_Cons keys_upsert)

lemma set_upsert_all_subset: "set (upsert_all key xs s) \<subseteq> set xs \<union> set s"
proof (induction xs arbitrary: s)
  case Nil
  then show ?case by (simp add: upsert_all_Nil)
next
  case (Cons x xs)
  have "set (upsert_all key xs (upsert key x s)) \<subseteq> set xs \<union> set (upsert key x s)"
    by (rule Cons.IH)
  also have "\<dots> \<subseteq> set xs \<union> insert x (set s)"
    using set_upsert_subset [of key x s] by auto
  finally show ?case by (auto simp: upsert_all_Cons)
qed

lemma distinct_upsert_all:
  "distinct (map key s) \<Longrightarrow> distinct (map key (upsert_all key xs s))"
  by (induction xs arbitrary: s) (simp_all add: upsert_all_Nil upsert_all_Cons distinct_upsert)

lemma last_mem_upsert_all:
  "xs \<noteq> [] \<Longrightarrow> last xs \<in> set (upsert_all key xs s)"
proof (induction xs arbitrary: s rule: rev_induct)
  case Nil
  then show ?case by simp
next
  case (snoc x xs)
  show ?case by (simp add: upsert_all_append upsert_all_Cons upsert_all_Nil upsert_mem)
qed

text \<open>A write is absorbed by a later write of the same sequence once the keys of the
  sequence are all present.\<close>

lemma upsert_all_after_upsert:
  "key ` set xs \<subseteq> key ` set s \<Longrightarrow>
   upsert key x (upsert_all key xs (upsert key x s)) = upsert key x (upsert_all key xs s)"
proof (induction xs arbitrary: s)
  case Nil
  then show ?case by (simp add: upsert_all_Nil upsert_absorb)
next
  case (Cons y ys)
  have ys: "key ` set ys \<subseteq> key ` set (upsert key y s)"
    using Cons.prems by (auto simp: keys_upsert)
  show ?case
  proof (cases "key x = key y")
    case True
    then show ?thesis by (simp add: upsert_all_Cons upsert_absorb)
  next
    case False
    have "key y \<in> key ` set s" using Cons.prems by auto
    with False have "upsert key y (upsert key x s) = upsert key x (upsert key y s)"
      by (rule upsert_commute)
    then show ?thesis using Cons.IH [OF ys] by (simp add: upsert_all_Cons)
  qed
qed

lemma upsert_all_idem:
  "upsert_all key xs (upsert_all key xs s) = upsert_all key xs s"
proof (induction xs arbitrary: s rule: rev_induct)
  case Nil
  then show ?case by (simp add: upsert_all_Nil)
next
  case (snoc x xs)
  let ?t = "upsert_all key xs s"
  have sub: "key ` set xs \<subseteq> key ` set ?t" by (auto simp: keys_upsert_all)
  have "upsert_all key (xs @ [x]) (upsert_all key (xs @ [x]) s)
        = upsert key x (upsert_all key xs (upsert key x ?t))"
    by (simp add: upsert_all_append upsert_all_Cons upsert_all_Nil)
  also have "\<dots> = upsert key x (upsert_all key xs ?t)"
    by (rule upsert_all_after_upsert [OF sub])
  also have "\<dots> = upsert key x ?t" by (simp add: snoc.IH)
  finally show ?case by (simp add: upsert_all_append upsert_all_Cons upsert_all_Nil)
qed

text \<open>The writes of a batch, per collection.\<close>

lemma upsert_as_all: "upsert key x s = upsert_all key [x] s"
  by (simp add: upsert_all_def)

lemma upload_doc_writes:
  "\<exists>as es. \<forall>s. upload_doc s d = \<lparr> articles = upsert_all a_id as (articles s), entities = upsert_all e_id es (entities s) \<rparr>"
proof (cases "case d of None \<Rightarrow> None | Some doc \<Rightarrow> adaptFromAlchemyDoc doc")
  case None
  then have "\<forall>s. upload_doc s d = \<lparr> articles = upsert_all a_id [] (articles s), entities = upsert_all e_id [] (entities s) \<rparr>"
    by (auto simp: upload_doc_def upsert_all_Nil split: option.splits)
  then show ?thesis by blast
next
  case (Some p)
  obtain a es where p: "p = (a, es)" by (cases p)
  from Some p have "\<forall>s. upload_doc s d = \<lparr> articles = upsert_all a_id [a] (articles s), entities = upsert_all e_id es (entities s) \<rparr>"
    by (auto simp: upload_doc_def upsert_all_Nil upsert_all_Cons split: option.splits)
  then show ?thesis by blast
qed

lemma upload_writes:
  "\<exists>as es. \<forall>s. uploadArticlesFromDocs docs s = \<lparr> articles = upsert_all a_id as (articles s), entities = upsert_all e_id es (entities s) \<rparr>"
proof (induction docs rule: rev_induct)
  case Nil
  have "\<forall>s. uploadArticlesFromDocs [] s = \<lparr> articles = upsert_all a_id [] (articles s), entities = upsert_all e_id [] (entities s) \<rparr>"
    by (simp add: uploadArticlesFromDocs_def upsert_all_Nil)
  then show ?case by blast
next
  case (snoc d docs)
  then obtain as es where 1: "\<And>s. uploadArticlesFromDocs docs s = \<lparr> articles = upsert_all a_id as (articles s), entities = upsert_all e_id es (entities s) \<rparr>"
    by blast
  obtain as' es' where 2: "\<And>s. upload_doc s d = \<lparr> articles = upsert_all a_id as' (articles s), entities = upsert_all e_id es' (entities s) \<rparr>"
    using upload_doc_writes by blast
  have "\<forall>s. uploadArticlesFromDocs (docs @ [d]) s = \<lparr> articles = upsert_all a_id (as @ as') (articles s), entities = upsert_all e_id (es @ es') (entities s) \<rparr>"
    by (simp add: uploadArticlesFromDocs_def upsert_all_append 1 [unfolded uploadArticlesFromDocs_def] 2)
  then show ?case by blast
qed

lemma upload_idem:
  "uploadArticlesFromDocs docs (uploadArticlesFromDocs docs s) = uploadArticlesFromDocs docs s"
proof -
  obtain as es where 1: "\<And>s. uploadArticlesFromDocs docs s = \<lparr> articles = upsert_all a_id as (articles s), entities = upsert_all e_id es (entities s) \<rparr>"
    using upload_writes by blast
  show ?thesis by (simp add: 1 upsert_all_idem)
qed

section \<open>Properties of the document adapter\<close>

lemma adapt_entity_simps:
  "e_id (adapt_entity doc e) = ae_text e @ doc_id doc"
  "e_text (adapt_entity doc e) = ae_text e"
  "e_date (adapt_entity doc e) = doc_timestamp doc * 1000"
  "e_article_id (adapt_entity doc e) = doc_id doc"
  by (simp_all add: adapt_entity_def date_of_timestamp_def)

lemma adaptFromAlchemyDoc_Some:
  "adaptFromAlchemyDoc doc = Some (art, ents) \<longleftrightarrow>
     (\<exists>eu. enrichedUrl_of doc = Some eu \<and>
        art = \<lparr> a_id = doc_id doc, a_title = eu_title eu,
                a_date = doc_timestamp doc * 1000, a_url = eu_url eu \<rparr> \<and>
        ents = filter (\<lambda>e. 1 < length (e_text e)) (map (adapt_entity doc) (eu_entities eu)) \<and>
        ents \<noteq> [])"
  by (auto simp: adaptFromAlchemyDoc_def Let_def date_of_timestamp_def split: option.splits)

lemma adaptFromAlchemyDoc_None:
  "adaptFromAlchemyDoc doc = None \<longleftrightarrow>
     (case enrichedUrl_of doc of
        None \<Rightarrow> True
      | Some eu \<Rightarrow> list_all (\<lambda>e. length (ae_text e) \<le> 1) (eu_entities eu))"
proof (cases "enrichedUrl_of doc")
  case None
  then show ?thesis by (simp add: adaptFromAlchemyDoc_def)
next
  case (Some eu)
  have "filter (\<lambda>e. 1 < length (e_text e)) (map (adapt_entity doc) (eu_entities eu)) = []
        \<longleftrightarrow> list_all (\<lambda>e. length (ae_text e) \<le> 1) (eu_entities eu)"
    by (auto simp: filter_empty_conv list_all_iff adapt_entity_simps not_less)
  with Some show ?thesis by (simp add: adaptFromAlchemyDoc_def Let_def)
qed

text \<open>
  Claim C2, as amended. The adapter has no output when the enriched object
  (\<open>doc.source.enriched.url\<close>, which carries title, url and entities) is missing.
  When it is present and at least one of its entities has a text longer than one
  character, the adapter produces an Article whose id is the document id, whose title
  and url are those of the enriched object and whose date is the timestamp in
  milliseconds (seconds times 1000), with at least one Mention, and every Mention
  has the date of the Article.
\<close>

theorem adaptFromAlchemyDoc_article:
  "(enrichedUrl_of doc = None \<longrightarrow> adaptFromAlchemyDoc doc = None) \<and>
   (\<forall>eu. enrichedUrl_of doc = Some eu \<and> (\<exists>e\<in>set (eu_entities eu). 1 < length (ae_text e)) \<longrightarrow>
      (\<exists>art ents. adaptFromAlchemyDoc doc = Some (art, ents) \<and>
         a_id art = doc_id doc \<and> a_title art = eu_title eu \<and> a_url art = eu_url eu \<and>
         a_date art = doc_timestamp doc * 1000 \<and>
         ents \<noteq> [] \<and> (\<forall>m\<in>set ents. e_date m = a_date art)))"
proof (intro conjI allI impI)
  assume "enrichedUrl_of doc = None"
  then show "adaptFromAlchemyDoc doc = None" by (simp add: adaptFromAlchemyDoc_def)
next
  fix eu
  assume h: "enrichedUrl_of doc = Some eu \<and> (\<exists>e\<in>set (eu_entities eu). 1 < length (ae_text e))"
  let ?art = "\<lparr> a_id = doc_id doc, a_title = eu_title eu,
                a_date = doc_timestamp doc * 1000, a_url = eu_url eu \<rparr>"
  let ?ents = "filter (\<lambda>e. 1 < length (e_text e)) (map (adapt_entity doc) (eu_entities eu))"
  from h have ne: "?ents \<noteq> []"
    by (auto simp: filter_empty_conv adapt_entity_simps)
  with h have "adaptFromAlchemyDoc doc = Some (?art, ?ents)"
    by (simp add: adaptFromAlchemyDoc_Some)
  moreover have "\<forall>m\<in>set ?ents. e_date m = a_date ?art"
    by (auto simp: adapt_entity_simps)
  ultimately show "\<exists>art ents. adaptFromAlchemyDoc doc = Some (art, ents) \<and>
         a_id art = doc_id doc \<and> a_title art = eu_title eu \<and> a_url art = eu_url eu \<and>
         a_date art = doc_timestamp doc * 1000 \<and>
         ents \<noteq> [] \<and> (\<forall>m\<in>set ents. e_date m = a_date art)"
    using ne by (intro exI [of _ ?art] exI [of _ ?ents]) simp
qed

text \<open>The theorem at \<open>example_doc\<close>, whose entities are ``IBM'' and ``a''.\<close>

theorem adaptFromAlchemyDoc_article_witness:
  "enrichedUrl_of example_doc = Some example_enriched \<and>
   (\<exists>e\<in>set (eu_entities example_enriched). 1 < length (ae_text e)) \<and>
   (\<exists>art ents. adaptFromAlchemyDoc example_doc = Some (art, ents) \<and>
      a_id art = ''doc1'' \<and> a_title art = ''Markets today'' \<and>
      a_url art = ''http://news.example/1'' \<and> a_date art = 1446336000000 \<and>
      ents \<noteq> [] \<and> list_all (\<lambda>m. e_date m = 1446336000000) ents)"
proof -
  have h: "enrichedUrl_of example_doc = Some example_enriched \<and>
           (\<exists>e\<in>set (eu_entities example_enriched). 1 < length (ae_text e))"
    by (simp add: enrichedUrl_of_def example_doc_def example_enriched_def)
  with adaptFromAlchemyDoc_article [of example_doc]
  obtain art ents where r: "adaptFromAlchemyDoc example_doc = Some (art, ents)"
      "a_id art = doc_id example_doc" "a_title art = eu_title example_enriched"
      "a_url art = eu_url example_enriched" "a_date art = doc_timestamp example_doc * 1000"
      "ents \<noteq> []" "\<forall>m\<in>set ents. e_date m = a_date art"
    by blast
  from r(2-5) have "a_id art = ''doc1''" "a_title art = ''Markets today''"
      "a_url art = ''http://news.example/1''" "a_date art = 1446336000000"
    by (simp_all add: example_doc_def example_enriched_def)
  moreover from r(7) \<open>a_date art = 1446336000000\<close>
  have "list_all (\<lambda>m. e_date m = 1446336000000) ents"
    by (simp add: list_all_iff)
  ultimately show ?thesis using h r(1) r(6) by blast
qed

text \<open>
  Claim C2 as stated fails: the enriched object of \<open>degenerate_doc\<close> is present,
  and the adapter has no output for it, since its only entity has a one-character text.
\<close>

theorem adaptFromAlchemyDoc_enriched_no_output:
  "enrichedUrl_of degenerate_doc \<noteq> None \<and> adaptFromAlchemyDoc degenerate_doc = None"
  by (simp add: enrichedUrl_of_def degenerate_doc_def adaptFromAlchemyDoc_def adapt_entity_def)

section \<open>Properties of the ingestion\<close>

lemma uploadArticlesFromDocs_Nil: "uploadArticlesFromDocs [] s = s"
  by (simp add: uploadArticlesFromDocs_def)

lemma uploadArticlesFromDocs_Cons:
  "uploadArticlesFromDocs (d # docs) s = uploadArticlesFromDocs docs (upload_doc s d)"
  by (simp add: uploadArticlesFromDocs_def)

lemma upload_doc_cases:
  "upload_doc s d = s \<or>
   (\<exists>doc art ents. d = Some doc \<and> adaptFromAlchemyDoc doc = Some (art, ents) \<and>
      upload_doc s d = \<lparr> articles = upsert a_id art (articles s),
                          entities = upsert_all e_id ents (entities s) \<rparr>)"
  by (auto simp: upload_doc_def split: option.splits)

lemma upload_doc_entities:
  assumes "m \<in> set (entities (upload_doc s d))"
  shows "m \<in> set (entities s) \<or> 1 < length (e_text m)"
proof -
  from upload_doc_cases [of s d] show ?thesis
  proof
    assume "upload_doc s d = s"
    with assms show ?thesis by simp
  next
    assume "\<exists>doc art ents. d = Some doc \<and> adaptFromAlchemyDoc doc = Some (art, ents) \<and>
      upload_doc s d = \<lparr> articles = upsert a_id art (articles s),
                          entities = upsert_all e_id ents (entities s) \<rparr>"
    then obtain doc art ents where a: "adaptFromAlchemyDoc doc = Some (art, ents)"
      and u: "entities (upload_doc s d) = upsert_all e_id ents (entities s)"
      by auto
    from assms u have "m \<in> set ents \<union> set (entities s)"
      using set_upsert_all_subset [of e_id ents "entities s"] by auto
    moreover from a have "\<forall>x\<in>set ents. 1 < length (e_text x)"
      by (auto simp: adaptFromAlchemyDoc_Some)
    ultimately show ?thesis by auto
  qed
qed

lemma upload_entities:
  "m \<in> set (entities (uploadArticlesFromDocs docs s)) \<Longrightarrow>
   m \<in> set (entities s) \<or> 1 < length (e_text m)"
proof (induction docs arbitrary: s)
  case Nil
  then show ?case by (simp add: uploadArticlesFromDocs_Nil)
next
  case (Cons d docs)
  from Cons.prems have "m \<in> set (entities (uploadArticlesFromDocs docs (upload_doc s d)))"
    by (simp add: uploadArticlesFromDocs_Cons)
  then have "m \<in> set (entities (upload_doc s d)) \<or> 1 < length (e_text m)"
    by (rule Cons.IH)
  then show ?case using upload_doc_entities [of m s d] by blast
qed

lemma upload_doc_article_has_mention:
  assumes "a \<in> set (articles (upload_doc s d))"
  shows "a \<in> set (articles s) \<or>
         (\<exists>m\<in>set (entities (upload_doc s d)). e_article_id m = a_id a \<and> 1 < length (e_text m))"
proof -
  from upload_doc_cases [of s d] show ?thesis
  proof
    assume "upload_doc s d = s"
    with assms show ?thesis by simp
  next
    assume "\<exists>doc art ents. d = Some doc \<and> adaptFromAlchemyDoc doc = Some (art, ents) \<and>
      upload_doc s d = \<lparr> articles = upsert a_id art (articles s),
                          entities = upsert_all e_id ents (entities s) \<rparr>"
    then obtain doc art ents where a: "adaptFromAlchemyDoc doc = Some (art, ents)"
      and u: "upload_doc s d = \<lparr> articles = upsert a_id art (articles s),
                          entities = upsert_all e_id ents (entities s) \<rparr>"
      by auto
    from assms u have "a = art \<or> a \<in> set (articles s)"
      using set_upsert_subset [of a_id art "articles s"] by auto
    then show ?thesis
    proof
      assume "a = art"
      from a have ne: "ents \<noteq> []" and all: "\<forall>x\<in>set ents. 1 < length (e_text x) \<and> e_article_id x = a_id art"
        by (auto simp: adaptFromAlchemyDoc_Some adapt_entity_simps)
      from ne have "last ents \<in> set (upsert_all e_id ents (entities s))"
        by (rule last_mem_upsert_all)
      moreover from ne all have "1 < length (e_text (last ents)) \<and> e_article_id (last ents) = a_id art"
        by simp
      ultimately show ?thesis using u \<open>a = art\<close> by auto
    next
      assume "a \<in> set (articles s)"
      then show ?thesis ..
    qed
  qed
qed

text \<open>
  Claim C8. Whatever the adapter produces has at least one Mention, every Mention has
  a text longer than one character and refers to the produced Article, and the texts
  of the Mentions are exactly the texts of the document's entities that are longer
  than one character (so a degenerate entity beside valid ones is dropped and the
  valid ones are kept). A document whose entities all have a text of length at most
  one has no output. Hence every Mention in the store after an ingestion either was
  there before or has a text longer than one character, and every Article in the store
  after the ingestion of a document either was there before or has a valid Mention of
  that store referring to it.
\<close>

theorem adaptFromAlchemyDoc_degenerate_filtered:
  "(\<forall>art ents. adaptFromAlchemyDoc doc = Some (art, ents) \<longrightarrow>
      ents \<noteq> [] \<and>
      (\<forall>m\<in>set ents. 1 < length (e_text m) \<and> e_article_id m = a_id art) \<and>
      (\<forall>eu. enrichedUrl_of doc = Some eu \<longrightarrow>
         map e_text ents = filter (\<lambda>t. 1 < length t) (map ae_text (eu_entities eu)))) \<and>
   (\<forall>eu. enrichedUrl_of doc = Some eu \<and> (\<forall>e\<in>set (eu_entities eu). length (ae_text e) \<le> 1) \<longrightarrow>
      adaptFromAlchemyDoc doc = None) \<and>
   (\<forall>m\<in>set (entities (uploadArticlesFromDocs docs s)).
      m \<in> set (entities s) \<or> 1 < length (e_text m)) \<and>
   (\<forall>a\<in>set (articles (upload_doc s d)).
      a \<in> set (articles s) \<or>
      (\<exists>m\<in>set (entities (upload_doc s d)). e_article_id m = a_id a \<and> 1 < length (e_text m)))"
proof (intro conjI allI impI ballI)
  fix art ents
  assume a: "adaptFromAlchemyDoc doc = Some (art, ents)"
  then show "ents \<noteq> []" by (auto simp: adaptFromAlchemyDoc_Some)
  {
    fix m assume "m \<in> set ents"
    with a show "1 < length (e_text m)" "e_article_id m = a_id art"
      by (auto simp: adaptFromAlchemyDoc_Some adapt_entity_simps)
  }
  {
    fix eu assume "enrichedUrl_of doc = Some eu"
    with a have "ents = filter (\<lambda>e. 1 < length (e_text e)) (map (adapt_entity doc) (eu_entities eu))"
      by (simp add: adaptFromAlchemyDoc_Some)
    then show "map e_text ents = filter (\<lambda>t. 1 < length t) (map ae_text (eu_entities eu))"
      by (simp add: filter_map comp_def adapt_entity_simps)
  }
next
  fix eu
  assume "enrichedUrl_of doc = Some eu \<and> (\<forall>e\<in>set (eu_entities eu). length (ae_text e) \<le> 1)"
  then show "adaptFromAlchemyDoc doc = None"
    by (simp add: adaptFromAlchemyDoc_None list_all_iff)
next
  fix m assume "m \<in> set (entities (uploadArticlesFromDocs docs s))"
  then show "m \<in> set (entities s) \<or> 1 < length (e_text m)" by (rule upload_entities)
next
  fix a assume "a \<in> set (articles (upload_doc s d))"
  then show "a \<in> set (articles s) \<or>
      (\<exists>m\<in>set (entities (upload_doc s d)). e_article_id m = a_id a \<and> 1 < length (e_text m))"
    by (rule upload_doc_article_has_mention)
qed

lemma adapt_example_doc:
  "adaptFromAlchemyDoc example_doc =
     Some (\<lparr> a_id = ''doc1'', a_title = ''Markets today'', a_date = 1446336000000,
             a_url = ''http://news.example/1'' \<rparr>,
           [\<lparr> e_id = ''IBMdoc1'', e_text = ''IBM'', e_count = 3, e_sentiment = 1 / 2,
              e_date = 1446336000000, e_article_id = ''doc1'' \<rparr>])"
  by (simp add: adaptFromAlchemyDoc_def enrichedUrl_of_def example_doc_def example_enriched_def
      adapt_entity_def date_of_timestamp_def)

lemma adapt_degenerate_doc: "adaptFromAlchemyDoc degenerate_doc = None"
  by (simp add: adaptFromAlchemyDoc_def enrichedUrl_of_def degenerate_doc_def adapt_entity_def)

lemma adapt_example_doc_again:
  "adaptFromAlchemyDoc example_doc_again =
     Some (\<lparr> a_id = ''doc1'', a_title = ''Markets today (updated)'', a_date = 1446422400000,
             a_url = ''http://news.example/1'' \<rparr>,
           [\<lparr> e_id = ''IBMdoc1'', e_text = ''IBM'', e_count = 7, e_sentiment = 1 / 4,
              e_date = 1446422400000, e_article_id = ''doc1'' \<rparr>])"
  by (simp add: adaptFromAlchemyDoc_def enrichedUrl_of_def example_doc_again_def
      adapt_entity_def date_of_timestamp_def)

text \<open>
  The theorem on a batch of \<open>example_doc\<close> (entities ``IBM'' and ``a''), an absent
  document and \<open>degenerate_doc\<close> (the entity ``a'' only), ingested into the empty
  store.
\<close>

theorem adaptFromAlchemyDoc_degenerate_filtered_witness:
  "(\<exists>art ents. adaptFromAlchemyDoc example_doc = Some (art, ents) \<and>
      map e_text ents = [''IBM'']) \<and>
   map ae_text (eu_entities example_enriched) = [''IBM'', ''a''] \<and>
   adaptFromAlchemyDoc degenerate_doc = None \<and>
   map e_text (entities (uploadArticlesFromDocs [Some example_doc, None, Some degenerate_doc]
      empty_store)) = [''IBM''] \<and>
   map a_id (articles (uploadArticlesFromDocs [Some example_doc, None, Some degenerate_doc]
      empty_store)) = [''doc1''] \<and>
   list_all (\<lambda>m. 1 < length (e_text m))
     (entities (uploadArticlesFromDocs [Some example_doc, None, Some degenerate_doc] empty_store))"
proof -
  let ?docs = "[Some example_doc, None, Some degenerate_doc]"
  note t = adaptFromAlchemyDoc_degenerate_filtered
    [of example_doc ?docs empty_store "Some example_doc"]
  have eu: "enrichedUrl_of example_doc = Some example_enriched"
    by (simp add: enrichedUrl_of_def example_doc_def)
  from t adapt_example_doc eu have 1: "\<exists>art ents. adaptFromAlchemyDoc example_doc = Some (art, ents) \<and>
      map e_text ents = [''IBM'']"
    by (simp add: example_enriched_def)
  have 2: "map ae_text (eu_entities example_enriched) = [''IBM'', ''a'']"
    by (simp add: example_enriched_def)
  have eu2: "\<exists>eu. enrichedUrl_of degenerate_doc = Some eu \<and> (\<forall>e\<in>set (eu_entities eu). length (ae_text e) \<le> 1)"
    by (simp add: enrichedUrl_of_def degenerate_doc_def)
  with adaptFromAlchemyDoc_degenerate_filtered [of degenerate_doc ?docs empty_store None]
  have 3: "adaptFromAlchemyDoc degenerate_doc = None" by blast
  have up: "uploadArticlesFromDocs ?docs empty_store =
      \<lparr> articles = [\<lparr> a_id = ''doc1'', a_title = ''Markets today'', a_date = 1446336000000,
             a_url = ''http://news.example/1'' \<rparr>],
        entities = [\<lparr> e_id = ''IBMdoc1'', e_text = ''IBM'', e_count = 3, e_sentiment = 1 / 2,
              e_date = 1446336000000, e_article_id = ''doc1'' \<rparr>] \<rparr>"
    by (simp add: uploadArticlesFromDocs_def upload_doc_def adapt_example_doc
        adapt_degenerate_doc upsert_all_def empty_store_def)
  from t have "\<forall>m\<in>set (entities (uploadArticlesFromDocs ?docs empty_store)).
      m \<in> set (entities empty_store) \<or> 1 < length (e_text m)" by blast
  then have 4: "list_all (\<lambda>m. 1 < length (e_text m)) (entities (uploadArticlesFromDocs ?docs empty_store))"
    by (simp add: list_all_iff empty_store_def)
  from 1 2 3 4 up show ?thesis by simp
qed

lemma upload_distinct_entities:
  "distinct (map e_id (entities s)) \<Longrightarrow>
   distinct (map e_id (entities (uploadArticlesFromDocs docs s)))"
proof -
  obtain as es where "\<And>s. uploadArticlesFromDocs docs s =
      \<lparr> articles = upsert_all a_id as (articles s), entities = upsert_all e_id es (entities s) \<rparr>"
    using upload_writes by blast
  then show "distinct (map e_id (entities s)) \<Longrightarrow> ?thesis"
    by (simp add: distinct_upsert_all)
qed

lemma upload_distinct_articles:
  "distinct (map a_id (articles s)) \<Longrightarrow>
   distinct (map a_id (articles (uploadArticlesFromDocs docs s)))"
proof -
  obtain as es where "\<And>s. uploadArticlesFromDocs docs s =
      \<lparr> articles = upsert_all a_id as (articles s), entities = upsert_all e_id es (entities s) \<rparr>"
    using upload_writes by blast
  then show "distinct (map a_id (articles s)) \<Longrightarrow> ?thesis"
    by (simp add: distinct_upsert_all)
qed

lemma find_upsert:
  "find (\<lambda>y. key y = k) (upsert key x s) =
     (if k = key x then Some x else find (\<lambda>y. key y = k) s)"
  by (induction s) auto

lemma find_snoc:
  "find P (xs @ [x]) = (case find P xs of None \<Rightarrow> (if P x then Some x else None) | Some y \<Rightarrow> Some y)"
  by (induction xs) auto

lemma find_upsert_all:
  "find (\<lambda>y. key y = k) (upsert_all key xs s) =
     (case find (\<lambda>y. key y = k) (rev xs) of
        None \<Rightarrow> find (\<lambda>y. key y = k) s
      | Some y \<Rightarrow> Some y)"
proof (induction xs arbitrary: s)
  case Nil
  then show ?case by (simp add: upsert_all_Nil)
next
  case (Cons x xs)
  show ?case
    by (simp add: upsert_all_Cons Cons.IH find_upsert find_snoc split: option.splits)
qed

lemma filter_upsert_other:
  "key x \<in> K \<Longrightarrow> filter (\<lambda>y. key y \<notin> K) (upsert key x s) = filter (\<lambda>y. key y \<notin> K) s"
  by (induction s) auto

lemma filter_upsert_all_other:
  "key ` set xs \<subseteq> K \<Longrightarrow>
   filter (\<lambda>y. key y \<notin> K) (upsert_all key xs s) = filter (\<lambda>y. key y \<notin> K) s"
  by (induction xs arbitrary: s) (simp_all add: upsert_all_Nil upsert_all_Cons filter_upsert_other)

lemma map_key_upsert:
  "map key (upsert key x s) =
     (if key x \<in> key ` set s then map key s else map key s @ [key x])"
  by (induction s) auto

lemma take_keys_upsert_all:
  "take (length s) (map key (upsert_all key xs s)) = map key s"
proof (induction xs arbitrary: s)
  case Nil
  then show ?case by (simp add: upsert_all_Nil)
next
  case (Cons x xs)
  let ?s' = "upsert key x s"
  have len: "length s \<le> length ?s'"
    using arg_cong [OF map_key_upsert [of key x s], of length] by (simp split: if_splits)
  have "take (length s) (map key (upsert_all key xs ?s')) =
        take (length s) (take (length ?s') (map key (upsert_all key xs ?s')))"
    using len by (simp add: min_def)
  also have "\<dots> = take (length s) (map key ?s')" by (simp only: Cons.IH)
  also have "\<dots> = map key s" by (simp add: map_key_upsert)
  finally show ?case by (simp add: upsert_all_Cons)
qed

lemma upload_doc_as_writes:
  "upload_doc s d =
     \<lparr> articles = upsert_all a_id (fst (doc_writes d)) (articles s),
       entities = upsert_all e_id (snd (doc_writes d)) (entities s) \<rparr>"
  by (simp add: upload_doc_def doc_writes_def upsert_all_Nil upsert_all_Cons
      split: option.splits)

lemma upload_as_batch:
  "uploadArticlesFromDocs docs s =
     \<lparr> articles = upsert_all a_id (batch_articles docs) (articles s),
       entities = upsert_all e_id (batch_mentions docs) (entities s) \<rparr>"
proof (induction docs arbitrary: s)
  case Nil
  then show ?case
    by (simp add: uploadArticlesFromDocs_Nil batch_articles_def batch_mentions_def upsert_all_Nil)
next
  case (Cons d docs)
  have "uploadArticlesFromDocs (d # docs) s = uploadArticlesFromDocs docs (upload_doc s d)"
    by (rule uploadArticlesFromDocs_Cons)
  also have "\<dots> =
     \<lparr> articles = upsert_all a_id (batch_articles docs) (articles (upload_doc s d)),
       entities = upsert_all e_id (batch_mentions docs) (entities (upload_doc s d)) \<rparr>"
    by (rule Cons.IH)
  also have "\<dots> =
     \<lparr> articles = upsert_all a_id (batch_articles (d # docs)) (articles s),
       entities = upsert_all e_id (batch_mentions (d # docs)) (entities s) \<rparr>"
    by (simp add: upload_doc_as_writes batch_articles_def batch_mentions_def upsert_all_append)
  finally show ?case .
qed


text \<open>
  Claim C9. The id of every Mention that the adapter produces is the entity text
  followed by the document id, and the Mention refers to that document. Two documents
  with the same id give Mentions of the same text the same id, whatever else the
  documents hold and in whatever order they come. Ingesting a batch a second time
  leaves the store as the first ingestion left it, and a store whose ids are distinct
  keeps distinct ids (for Mentions and for Articles): an upsert overwrites in place and
  never duplicates. After the ingestion of a batch, the record stored under an id is
  the last record that the batch wrote under that id, with all its fields, and the
  record that was stored before when the batch wrote none; the records under ids that
  the batch did not write are the same, in the same order; the ids of the store are
  those it had and those written; and the ids it had stand where they stood.
\<close>

theorem mention_id_text_then_doc_id:
  "(\<forall>art ents. adaptFromAlchemyDoc doc = Some (art, ents) \<longrightarrow>
      (\<forall>m\<in>set ents. e_id m = e_text m @ doc_id doc \<and> e_article_id m = doc_id doc)) \<and>
   (\<forall>a1 es1 a2 es2.
      adaptFromAlchemyDoc d1 = Some (a1, es1) \<and> adaptFromAlchemyDoc d2 = Some (a2, es2) \<and>
      doc_id d1 = doc_id d2 \<longrightarrow>
      (\<forall>m1\<in>set es1. \<forall>m2\<in>set es2. e_text m1 = e_text m2 \<longrightarrow> e_id m1 = e_id m2)) \<and>
   uploadArticlesFromDocs docs (uploadArticlesFromDocs docs s) = uploadArticlesFromDocs docs s \<and>
   (distinct (map e_id (entities s)) \<longrightarrow>
      distinct (map e_id (entities (uploadArticlesFromDocs docs s)))) \<and>
   (distinct (map a_id (articles s)) \<longrightarrow>
      distinct (map a_id (articles (uploadArticlesFromDocs docs s)))) \<and>
   find (\<lambda>m. e_id m = k) (entities (uploadArticlesFromDocs docs s)) =
     (case find (\<lambda>m. e_id m = k) (rev (batch_mentions docs)) of
        None \<Rightarrow> find (\<lambda>m. e_id m = k) (entities s)
      | Some m \<Rightarrow> Some m) \<and>
   find (\<lambda>a. a_id a = k) (articles (uploadArticlesFromDocs docs s)) =
     (case find (\<lambda>a. a_id a = k) (rev (batch_articles docs)) of
        None \<Rightarrow> find (\<lambda>a. a_id a = k) (articles s)
      | Some a \<Rightarrow> Some a) \<and>
   filter (\<lambda>m. e_id m \<notin> e_id ` set (batch_mentions docs)) (entities (uploadArticlesFromDocs docs s)) =
     filter (\<lambda>m. e_id m \<notin> e_id ` set (batch_mentions docs)) (entities s) \<and>
   filter (\<lambda>a. a_id a \<notin> a_id ` set (batch_articles docs)) (articles (uploadArticlesFromDocs docs s)) =
     filter (\<lambda>a. a_id a \<notin> a_id ` set (batch_articles docs)) (articles s) \<and>
   e_id ` set (entities (uploadArticlesFromDocs docs s)) =
     e_id ` set (entities s) \<union> e_id ` set (batch_mentions docs) \<and>
   a_id ` set (articles (uploadArticlesFromDocs docs s)) =
     a_id ` set (articles s) \<union> a_id ` set (batch_articles docs) \<and>
   take (length (entities s)) (map e_id (entities (uploadArticlesFromDocs docs s))) =
     map e_id (entities s) \<and>
   take (length (articles s)) (map a_id (articles (uploadArticlesFromDocs docs s))) =
     map a_id (articles s)"
proof -
  have id: "\<And>doc art ents m. adaptFromAlchemyDoc doc = Some (art, ents) \<Longrightarrow> m \<in> set ents \<Longrightarrow>
      e_id m = e_text m @ doc_id doc \<and> e_article_id m = doc_id doc"
    by (auto simp: adaptFromAlchemyDoc_Some adapt_entity_simps)
  have same: "\<And>a1 es1 a2 es2 m1 m2.
      adaptFromAlchemyDoc d1 = Some (a1, es1) \<Longrightarrow> adaptFromAlchemyDoc d2 = Some (a2, es2) \<Longrightarrow>
      doc_id d1 = doc_id d2 \<Longrightarrow> m1 \<in> set es1 \<Longrightarrow> m2 \<in> set es2 \<Longrightarrow> e_text m1 = e_text m2 \<Longrightarrow>
      e_id m1 = e_id m2"
  proof -
    fix a1 es1 a2 es2 m1 m2
    assume "adaptFromAlchemyDoc d1 = Some (a1, es1)" "m1 \<in> set es1"
    then have 1: "e_id m1 = e_text m1 @ doc_id d1" using id by blast
    assume "adaptFromAlchemyDoc d2 = Some (a2, es2)" "m2 \<in> set es2"
    then have 2: "e_id m2 = e_text m2 @ doc_id d2" using id by blast
    assume "doc_id d1 = doc_id d2" "e_text m1 = e_text m2"
    with 1 2 show "e_id m1 = e_id m2" by simp
  qed
  have c1: "\<forall>art ents. adaptFromAlchemyDoc doc = Some (art, ents) \<longrightarrow>
      (\<forall>m\<in>set ents. e_id m = e_text m @ doc_id doc \<and> e_article_id m = doc_id doc)"
    using id by blast
  have c2: "\<forall>a1 es1 a2 es2.
      adaptFromAlchemyDoc d1 = Some (a1, es1) \<and> adaptFromAlchemyDoc d2 = Some (a2, es2) \<and>
      doc_id d1 = doc_id d2 \<longrightarrow>
      (\<forall>m1\<in>set es1. \<forall>m2\<in>set es2. e_text m1 = e_text m2 \<longrightarrow> e_id m1 = e_id m2)"
    using same by blast
  have c3: "uploadArticlesFromDocs docs (uploadArticlesFromDocs docs s) =
      uploadArticlesFromDocs docs s"
    by (rule upload_idem)
  have c4: "distinct (map e_id (entities s)) \<longrightarrow>
      distinct (map e_id (entities (uploadArticlesFromDocs docs s)))"
    using upload_distinct_entities [of s docs] by blast
  have c5: "distinct (map a_id (articles s)) \<longrightarrow>
      distinct (map a_id (articles (uploadArticlesFromDocs docs s)))"
    using upload_distinct_articles [of s docs] by blast
  note b = upload_as_batch [of docs s]
  have fe: "find (\<lambda>m. e_id m = k) (entities (uploadArticlesFromDocs docs s)) =
     (case find (\<lambda>m. e_id m = k) (rev (batch_mentions docs)) of
        None \<Rightarrow> find (\<lambda>m. e_id m = k) (entities s)
      | Some m \<Rightarrow> Some m)"
    by (simp only: b store.simps find_upsert_all)
  have fa: "find (\<lambda>a. a_id a = k) (articles (uploadArticlesFromDocs docs s)) =
     (case find (\<lambda>a. a_id a = k) (rev (batch_articles docs)) of
        None \<Rightarrow> find (\<lambda>a. a_id a = k) (articles s)
      | Some a \<Rightarrow> Some a)"
    by (simp only: b store.simps find_upsert_all)
  have oe: "filter (\<lambda>m. e_id m \<notin> e_id ` set (batch_mentions docs)) (entities (uploadArticlesFromDocs docs s)) =
     filter (\<lambda>m. e_id m \<notin> e_id ` set (batch_mentions docs)) (entities s)"
    unfolding b store.simps by (rule filter_upsert_all_other) simp
  have oa: "filter (\<lambda>a. a_id a \<notin> a_id ` set (batch_articles docs)) (articles (uploadArticlesFromDocs docs s)) =
     filter (\<lambda>a. a_id a \<notin> a_id ` set (batch_articles docs)) (articles s)"
    unfolding b store.simps by (rule filter_upsert_all_other) simp
  have ke: "e_id ` set (entities (uploadArticlesFromDocs docs s)) =
     e_id ` set (entities s) \<union> e_id ` set (batch_mentions docs)"
    unfolding b store.simps by (simp only: keys_upsert_all Un_commute)
  have ka: "a_id ` set (articles (uploadArticlesFromDocs docs s)) =
     a_id ` set (articles s) \<union> a_id ` set (batch_articles docs)"
    unfolding b store.simps by (simp only: keys_upsert_all Un_commute)
  have te: "take (length (entities s)) (map e_id (entities (uploadArticlesFromDocs docs s))) =
     map e_id (entities s)"
    unfolding b store.simps by (rule take_keys_upsert_all)
  have ta: "take (length (articles s)) (map a_id (articles (uploadArticlesFromDocs docs s))) =
     map a_id (articles s)"
    unfolding b store.simps by (rule take_keys_upsert_all)
  show ?thesis
    by (intro conjI) (fact c1 c2 c3 c4 c5 fe fa oe oa ke ka te ta)+
qed

lemma adapt_two_entity_doc:
  "adaptFromAlchemyDoc two_entity_doc =
     Some (\<lparr> a_id = ''doc1'', a_title = ''Markets today'', a_date = 1446336000000,
             a_url = ''http://news.example/1'' \<rparr>,
           [\<lparr> e_id = ''IBMdoc1'', e_text = ''IBM'', e_count = 3, e_sentiment = 1 / 2,
              e_date = 1446336000000, e_article_id = ''doc1'' \<rparr>,
            \<lparr> e_id = ''NASAdoc1'', e_text = ''NASA'', e_count = 4, e_sentiment = 0,
              e_date = 1446336000000, e_article_id = ''doc1'' \<rparr>])"
  by (simp add: adaptFromAlchemyDoc_def enrichedUrl_of_def two_entity_doc_def
      adapt_entity_def date_of_timestamp_def)

lemma upload_seeded_store:
  "uploadArticlesFromDocs [Some two_entity_doc, None, Some example_doc_again] seeded_store =
     \<lparr> articles =
         [stored_article ''doc0'' 1446249600000,
          \<lparr> a_id = ''doc1'', a_title = ''Markets today (updated)'', a_date = 1446422400000,
            a_url = ''http://news.example/1'' \<rparr>],
       entities =
         [mention ''NASA'' ''doc0'' 2 0 1446249600000,
          \<lparr> e_id = ''IBMdoc1'', e_text = ''IBM'', e_count = 7, e_sentiment = 1 / 4,
            e_date = 1446422400000, e_article_id = ''doc1'' \<rparr>,
          \<lparr> e_id = ''NASAdoc1'', e_text = ''NASA'', e_count = 4, e_sentiment = 0,
            e_date = 1446336000000, e_article_id = ''doc1'' \<rparr>] \<rparr>"
  by (simp add: uploadArticlesFromDocs_def upload_doc_def adapt_two_entity_doc
      adapt_example_doc_again upsert_all_def seeded_store_def stored_article_def mention_def)

lemma batch_mentions_seeded:
  "batch_mentions [Some two_entity_doc, None, Some example_doc_again] =
     [\<lparr> e_id = ''IBMdoc1'', e_text = ''IBM'', e_count = 3, e_sentiment = 1 / 2,
        e_date = 1446336000000, e_article_id = ''doc1'' \<rparr>,
      \<lparr> e_id = ''NASAdoc1'', e_text = ''NASA'', e_count = 4, e_sentiment = 0,
        e_date = 1446336000000, e_article_id = ''doc1'' \<rparr>,
      \<lparr> e_id = ''IBMdoc1'', e_text = ''IBM'', e_count = 7, e_sentiment = 1 / 4,
        e_date = 1446422400000, e_article_id = ''doc1'' \<rparr>]"
  by (simp add: batch_mentions_def doc_writes_def adapt_two_entity_doc adapt_example_doc_again)

text \<open>
  The theorem on \<open>seeded_store\<close>, which holds a mention of another article, and a
  batch of \<open>two_entity_doc\<close>, an absent document and \<open>example_doc_again\<close>, two
  analyses of the article ``doc1'' that both list the entity ``IBM'': the mention that
  was there is kept, ``IBM'' has one Mention, with the count of the later document,
  and the Mention of ``NASA'' from the first document is kept.
\<close>

theorem mention_id_text_then_doc_id_witness:
  "(\<exists>art ents. adaptFromAlchemyDoc two_entity_doc = Some (art, ents) \<and>
      map e_id ents = [''IBMdoc1'', ''NASAdoc1'']) \<and>
   (\<exists>art ents. adaptFromAlchemyDoc example_doc_again = Some (art, ents) \<and>
      map e_id ents = [''IBMdoc1'']) \<and>
   doc_id two_entity_doc = doc_id example_doc_again \<and>
   map e_id (entities seeded_store) = [''NASAdoc0''] \<and>
   map e_id (entities (uploadArticlesFromDocs [Some two_entity_doc, None, Some example_doc_again]
      seeded_store)) = [''NASAdoc0'', ''IBMdoc1'', ''NASAdoc1''] \<and>
   map e_count (entities (uploadArticlesFromDocs [Some two_entity_doc, None, Some example_doc_again]
      seeded_store)) = [2, 7, 4] \<and>
   map a_id (articles (uploadArticlesFromDocs [Some two_entity_doc, None, Some example_doc_again]
      seeded_store)) = [''doc0'', ''doc1''] \<and>
   uploadArticlesFromDocs [Some two_entity_doc, None, Some example_doc_again]
     (uploadArticlesFromDocs [Some two_entity_doc, None, Some example_doc_again] seeded_store) =
   uploadArticlesFromDocs [Some two_entity_doc, None, Some example_doc_again] seeded_store \<and>
   distinct (map e_id (entities (uploadArticlesFromDocs
      [Some two_entity_doc, None, Some example_doc_again] seeded_store))) \<and>
   find (\<lambda>m. e_id m = ''IBMdoc1'')
     (entities (uploadArticlesFromDocs [Some two_entity_doc, None, Some example_doc_again]
        seeded_store)) =
     Some \<lparr> e_id = ''IBMdoc1'', e_text = ''IBM'', e_count = 7, e_sentiment = 1 / 4,
            e_date = 1446422400000, e_article_id = ''doc1'' \<rparr> \<and>
   find (\<lambda>m. e_id m = ''NASAdoc0'')
     (entities (uploadArticlesFromDocs [Some two_entity_doc, None, Some example_doc_again]
        seeded_store)) =
     Some (mention ''NASA'' ''doc0'' 2 0 1446249600000)"
proof -
  let ?docs = "[Some two_entity_doc, None, Some example_doc_again]"
  note t1 = mention_id_text_then_doc_id
    [of two_entity_doc two_entity_doc example_doc_again ?docs seeded_store "''IBMdoc1''"]
  note t2 = mention_id_text_then_doc_id
    [of two_entity_doc two_entity_doc example_doc_again ?docs seeded_store "''NASAdoc0''"]
  have d: "distinct (map e_id (entities seeded_store))"
    by (simp add: seeded_store_def)
  have ids: "doc_id two_entity_doc = doc_id example_doc_again"
    by (simp add: two_entity_doc_def example_doc_again_def)
  from t1 d have 1: "uploadArticlesFromDocs ?docs (uploadArticlesFromDocs ?docs seeded_store) =
      uploadArticlesFromDocs ?docs seeded_store"
    and 2: "distinct (map e_id (entities (uploadArticlesFromDocs ?docs seeded_store)))"
    by blast+
  from t1 have 3: "find (\<lambda>m. e_id m = ''IBMdoc1'') (entities (uploadArticlesFromDocs ?docs seeded_store)) =
     Some \<lparr> e_id = ''IBMdoc1'', e_text = ''IBM'', e_count = 7, e_sentiment = 1 / 4,
            e_date = 1446422400000, e_article_id = ''doc1'' \<rparr>"
    by (simp add: batch_mentions_seeded)
  from t2 have 4: "find (\<lambda>m. e_id m = ''NASAdoc0'') (entities (uploadArticlesFromDocs ?docs seeded_store)) =
     Some (mention ''NASA'' ''doc0'' 2 0 1446249600000)"
    by (simp add: batch_mentions_seeded) (simp add: seeded_store_def mention_def)
  have 5: "map e_id (entities seeded_store) = [''NASAdoc0'']"
    by (simp add: seeded_store_def mention_def)
  have 6: "map e_id (entities (uploadArticlesFromDocs ?docs seeded_store)) =
      [''NASAdoc0'', ''IBMdoc1'', ''NASAdoc1'']"
    "map e_count (entities (uploadArticlesFromDocs ?docs seeded_store)) = [2, 7, 4]"
    "map a_id (articles (uploadArticlesFromDocs ?docs seeded_store)) = [''doc0'', ''doc1'']"
    by (simp_all add: upload_seeded_store mention_def stored_article_def)
  have 7: "\<exists>art ents. adaptFromAlchemyDoc two_entity_doc = Some (art, ents) \<and>
      map e_id ents = [''IBMdoc1'', ''NASAdoc1'']"
    "\<exists>art ents. adaptFromAlchemyDoc example_doc_again = Some (art, ents) \<and>
      map e_id ents = [''IBMdoc1'']"
    by (simp_all add: adapt_two_entity_doc adapt_example_doc_again)
  show ?thesis
    by (intro conjI) (fact 1 2 3 4 5 6 7 ids)+
qed

section \<open>Properties of the retention\<close>

text \<open>
  Claim C3, as amended. After \<open>pruneCharEntities\<close> no Mention whose text has length
  exactly 1 is in the store; every Mention of another length (0 included) is kept,
  nothing is added, and the Articles are untouched.
\<close>

theorem pruneCharEntities_removes_length_one:
  "(\<forall>m\<in>set (entities (pruneCharEntities s)). length (e_text m) \<noteq> 1) \<and>
   (\<forall>m\<in>set (entities s). length (e_text m) \<noteq> 1 \<longrightarrow> m \<in> set (entities (pruneCharEntities s))) \<and>
   set (entities (pruneCharEntities s)) \<subseteq> set (entities s) \<and>
   articles (pruneCharEntities s) = articles s"
  by (auto simp: pruneCharEntities_def)

text \<open>The theorem on \<open>legacy_store\<close>, with texts of length 0, 1 and 3.\<close>

theorem pruneCharEntities_removes_length_one_witness:
  "map e_text (entities legacy_store) = [[], ''a'', ''IBM''] \<and>
   map e_text (entities (pruneCharEntities legacy_store)) = [[], ''IBM''] \<and>
   list_all (\<lambda>m. length (e_text m) \<noteq> 1) (entities (pruneCharEntities legacy_store)) \<and>
   mention ''IBM'' ''doc1'' 3 (1 / 2) 1446336000000 \<in> set (entities (pruneCharEntities legacy_store))"
proof -
  note t = pruneCharEntities_removes_length_one [of legacy_store]
  from t have 1: "list_all (\<lambda>m. length (e_text m) \<noteq> 1) (entities (pruneCharEntities legacy_store))"
    by (simp add: list_all_iff)
  have "mention ''IBM'' ''doc1'' 3 (1 / 2) 1446336000000 \<in> set (entities legacy_store)"
       "length (e_text (mention ''IBM'' ''doc1'' 3 (1 / 2) 1446336000000)) \<noteq> 1"
    by (simp_all add: legacy_store_def mention_def)
  with t have 2: "mention ''IBM'' ''doc1'' 3 (1 / 2) 1446336000000 \<in> set (entities (pruneCharEntities legacy_store))"
    by blast
  have 3: "map e_text (entities legacy_store) = [[], ''a'', ''IBM'']"
      "map e_text (entities (pruneCharEntities legacy_store)) = [[], ''IBM'']"
    by (simp_all add: legacy_store_def mention_def pruneCharEntities_def)
  from 1 2 3 show ?thesis by simp
qed

text \<open>
  Claim C3 as stated fails: the Mention of \<open>legacy_store\<close> with the empty text, of
  length 0, is in the store after the sweep.
\<close>

theorem pruneCharEntities_keeps_empty_text:
  "mention [] ''doc1'' 1 0 1446336000000 \<in> set (entities (pruneCharEntities legacy_store)) \<and>
   length (e_text (mention [] ''doc1'' 1 0 1446336000000)) \<le> 1"
  by (simp add: legacy_store_def mention_def pruneCharEntities_def)






section \<open>Properties of the aggregation\<close>

lemma g_key_add_to_group: "g_key (add_to_group e g) = g_key g"
  by (simp add: add_to_group_def)

lemma keys_group_add:
  "g_key ` set (group_add e gs) = insert (entity_key e) (g_key ` set gs)"
  by (induction gs) (auto simp: new_group_def g_key_add_to_group)

lemma distinct_group_add:
  "distinct (map g_key gs) \<Longrightarrow> distinct (map g_key (group_add e gs))"
proof (induction gs)
  case Nil
  then show ?case by simp
next
  case (Cons g gs)
  have "g_key ` set (group_add e gs) = insert (entity_key e) (g_key ` set gs)"
    by (rule keys_group_add)
  with Cons show ?case by (auto simp: g_key_add_to_group)
qed

lemma find_group_add:
  "find (\<lambda>g. g_key g = k) (group_add e gs) =
     (if k = entity_key e
      then Some (case find (\<lambda>g. g_key g = k) gs of
                   None \<Rightarrow> new_group e
                 | Some g \<Rightarrow> add_to_group e g)
      else find (\<lambda>g. g_key g = k) gs)"
  by (induction gs) (auto simp: new_group_def g_key_add_to_group)

lemma spec_members_snoc:
  "spec_members k (es @ [e]) =
     (if entity_key e = k then spec_members k es @ [e] else spec_members k es)"
  by (simp add: spec_members_def entity_key_def)

lemma spec_members_empty: "k \<notin> entity_key ` set es \<Longrightarrow> spec_members k es = []"
  by (auto simp: spec_members_def entity_key_def filter_empty_conv)

lemma spec_acc_snoc_other: "entity_key e \<noteq> k \<Longrightarrow> spec_acc (es @ [e]) k = spec_acc es k"
  by (simp add: spec_acc_def spec_totalCount_def spec_members_snoc)

lemma spec_acc_snoc_same:
  "spec_acc (es @ [e]) (entity_key e) = add_to_group e (spec_acc es (entity_key e))"
  by (simp add: spec_acc_def spec_totalCount_def spec_members_snoc add_to_group_def)

lemma spec_acc_snoc_new:
  "entity_key e \<notin> entity_key ` set es \<Longrightarrow> spec_acc (es @ [e]) (entity_key e) = new_group e"
  by (simp add: spec_acc_def spec_totalCount_def spec_members_snoc spec_members_empty new_group_def)

lemma find_groups:
  "find (\<lambda>g. g_key g = k) (foldl (\<lambda>gs e. group_add e gs) [] es) =
     (if k \<in> entity_key ` set es then Some (spec_acc es k) else None)"
proof (induction es arbitrary: k rule: rev_induct)
  case Nil
  then show ?case by simp
next
  case (snoc e es)
  show ?case
  proof (cases "k = entity_key e")
    case True
    show ?thesis
    proof (cases "entity_key e \<in> entity_key ` set es")
      case True
      with \<open>k = entity_key e\<close> show ?thesis
        by (simp add: find_group_add snoc.IH spec_acc_snoc_same)
    next
      case False
      with \<open>k = entity_key e\<close> show ?thesis
        by (simp add: find_group_add snoc.IH spec_acc_snoc_new)
    qed
  next
    case False
    then show ?thesis
      by (auto simp: find_group_add snoc.IH spec_acc_snoc_other)
  qed
qed

lemma distinct_groups: "distinct (map g_key (foldl (\<lambda>gs e. group_add e gs) [] es))"
  by (induction es rule: rev_induct) (simp_all add: distinct_group_add)

lemma keys_groups: "g_key ` set (foldl (\<lambda>gs e. group_add e gs) [] es) = entity_key ` set es"
  by (induction es rule: rev_induct) (simp_all add: keys_group_add)

lemma find_distinct_key:
  "distinct (map g_key gs) \<Longrightarrow> g \<in> set gs \<Longrightarrow> find (\<lambda>x. g_key x = g_key g) gs = Some g"
proof (induction gs)
  case Nil
  then show ?case by simp
next
  case (Cons a gs)
  show ?case
  proof (cases "g = a")
    case True
    then show ?thesis by simp
  next
    case False
    with Cons.prems have "g \<in> set gs" by simp
    with Cons.prems have "g_key a \<noteq> g_key g" by auto
    with Cons \<open>g \<in> set gs\<close> show ?thesis by simp
  qed
qed

lemma groups_are_spec_acc:
  assumes "g \<in> set (foldl (\<lambda>gs e. group_add e gs) [] es)"
  shows "g = spec_acc es (g_key g)"
proof -
  from assms have "find (\<lambda>x. g_key x = g_key g) (foldl (\<lambda>gs e. group_add e gs) [] es) = Some g"
    by (rule find_distinct_key [OF distinct_groups])
  then show ?thesis by (simp add: find_groups split: if_splits)
qed

lemma finish_spec_acc: "finish_group (spec_acc es k) = spec_row es k"
  by (simp add: finish_group_def spec_acc_def spec_row_def spec_averageSentiment_def)

lemma group_stage_ids: "map r_id (group_stage es) = map g_key (foldl (\<lambda>gs e. group_add e gs) [] es)"
  by (simp add: group_stage_def finish_group_def comp_def)

lemma entity_key_image: "entity_key ` set es = spec_keys es"
  by (simp add: spec_keys_def entity_key_def)

lemma distinct_group_stage: "distinct (map r_id (group_stage es))"
  by (simp add: group_stage_ids distinct_groups)

lemma ids_group_stage: "r_id ` set (group_stage es) = spec_keys es"
proof -
  have "r_id ` set (group_stage es) = set (map r_id (group_stage es))" by simp
  also have "\<dots> = g_key ` set (foldl (\<lambda>gs e. group_add e gs) [] es)"
    by (simp only: group_stage_ids set_map)
  finally show ?thesis by (simp add: keys_groups entity_key_image)
qed

lemma rows_group_stage:
  assumes "r \<in> set (group_stage es)"
  shows "r = spec_row es (r_id r)"
proof -
  from assms obtain g where g: "g \<in> set (foldl (\<lambda>gs e. group_add e gs) [] es)" and r: "r = finish_group g"
    by (auto simp: group_stage_def)
  from g have "g = spec_acc es (g_key g)" by (rule groups_are_spec_acc)
  then have "r = spec_row es (g_key g)" using r finish_spec_acc [of es "g_key g"] by simp
  then show ?thesis by (simp add: spec_row_def)
qed

lemma set_group_stage: "set (group_stage es) = spec_row es ` spec_keys es"
proof (intro set_eqI iffI)
  fix r assume r: "r \<in> set (group_stage es)"
  then have 1: "r = spec_row es (r_id r)" by (rule rows_group_stage)
  from r have "r_id r \<in> r_id ` set (group_stage es)" by (rule imageI)
  then have "r_id r \<in> spec_keys es" by (simp only: ids_group_stage)
  then have "spec_row es (r_id r) \<in> spec_row es ` spec_keys es" by (rule imageI)
  with 1 show "r \<in> spec_row es ` spec_keys es" by simp
next
  fix r assume "r \<in> spec_row es ` spec_keys es"
  then obtain k where k: "k \<in> spec_keys es" and r: "r = spec_row es k" by (rule imageE)
  from k have "k \<in> r_id ` set (group_stage es)" by (simp only: ids_group_stage)
  then obtain r' where r': "r' \<in> set (group_stage es)" and kr: "k = r_id r'" by (rule imageE)
  from r' have "r' = spec_row es (r_id r')" by (rule rows_group_stage)
  with r kr have "r = r'" by simp
  with r' show "r \<in> set (group_stage es)" by simp
qed

lemma length_group_stage: "length (group_stage es) = card (spec_keys es)"
proof -
  have "length (group_stage es) = length (map r_id (group_stage es))" by simp
  also have "\<dots> = card (set (map r_id (group_stage es)))"
    by (rule distinct_card [symmetric]) (rule distinct_group_stage)
  also have "\<dots> = card (spec_keys es)" using ids_group_stage [of es] by simp
  finally show ?thesis .
qed


lemma aggregate_matched_window:
  "t_end \<noteq> 0 \<Longrightarrow> aggregate_matched (Some t_start) (Some t_end) s = spec_window t_start t_end s"
  by (simp add: aggregate_matched_def spec_window_def or_default_def date_in_def [abs_def])

lemma set_sort_stage: "set (sort_stage rows) = set rows"
  by (simp add: sort_stage_def)

lemma length_sort_stage: "length (sort_stage rows) = length rows"
  by (simp add: sort_stage_def)

lemma distinct_ids_sort_stage:
  "distinct (map r_id rows) \<Longrightarrow> distinct (map r_id (sort_stage rows))"
  by (simp add: distinct_map sort_stage_def)

lemma descending_sort_stage: "sorted_wrt (\<lambda>a b. r_value b \<le> r_value a) (sort_stage rows)"
proof -
  have "sorted (map (\<lambda>r. - r_value r) (sort_stage rows))"
    by (simp add: sort_stage_def)
  then show ?thesis by (simp add: sorted_map)
qed

lemma descending_limit:
  "sorted_wrt (\<lambda>a b. r_value b \<le> r_value a) (limit_stage n (sort_stage rows))"
  unfolding limit_stage_def by (rule sorted_wrt_take) (rule descending_sort_stage)

lemma dropped_below_kept:
  assumes "a \<in> set (limit_stage n (sort_stage rows))"
    and "b \<in> set rows" and "b \<notin> set (limit_stage n (sort_stage rows))"
  shows "r_value b \<le> r_value a"
proof -
  let ?xs = "sort_stage rows"
  have "sorted_wrt (\<lambda>a b. r_value b \<le> r_value a) (take n ?xs @ drop n ?xs)"
    using descending_sort_stage [of rows] by simp
  then have *: "\<forall>x\<in>set (take n ?xs). \<forall>y\<in>set (drop n ?xs). r_value y \<le> r_value x"
    by (simp only: sorted_wrt_append) blast
  have "set ?xs = set (take n ?xs) \<union> set (drop n ?xs)"
    by (metis append_take_drop_id set_append)
  with assms(2,3) have "b \<in> set (drop n ?xs)"
    by (auto simp: limit_stage_def set_sort_stage)
  with * assms(1) show ?thesis by (auto simp: limit_stage_def)
qed

text \<open>
  Claim C5, as amended: for a limit and an end that are not zero. Let \<open>M\<close> be the
  stored mentions dated in \<open>[t_start, t_end)\<close>. Every row of the result is the row of
  a key, the lower-cased text of a mention of \<open>M\<close> (so ``IBM'' and ``ibm'' are one
  group), with the sum of the counts of the mentions of that key as its value and the
  unweighted mean of their sentiments; no key has two rows; the rows descend by value;
  their number is the smaller of the limit and the number of keys; and no key left
  out has a greater sum than a row of the result.
\<close>

theorem aggregateEntities_ranking:
  assumes "n \<noteq> 0" and "t_end \<noteq> 0"
    and "M = spec_window t_start t_end s"
    and "rows = aggregateEntities (Some t_start) (Some t_end) (Some n) s"
  shows "set rows \<subseteq> spec_row M ` spec_keys M \<and>
         distinct (map r_id rows) \<and>
         sorted_wrt (\<lambda>a b. r_value b \<le> r_value a) rows \<and>
         length rows = min n (card (spec_keys M)) \<and>
         (\<forall>k\<in>spec_keys M. k \<notin> r_id ` set rows \<longrightarrow>
            (\<forall>r\<in>set rows. spec_totalCount k M \<le> r_value r))"
proof -
  from assms have rows: "rows = limit_stage n (sort_stage (group_stage M))"
    by (simp add: aggregateEntities_def aggregate_matched_window or_default_def)
  have 1: "set rows \<subseteq> spec_row M ` spec_keys M"
  proof -
    have "set rows \<subseteq> set (sort_stage (group_stage M))"
      unfolding rows limit_stage_def by (rule set_take_subset)
    then show ?thesis by (simp only: set_sort_stage set_group_stage)
  qed
  have 2: "distinct (map r_id rows)"
  proof -
    have "distinct (map r_id (sort_stage (group_stage M)))"
      by (rule distinct_ids_sort_stage) (rule distinct_group_stage)
    then show ?thesis unfolding rows limit_stage_def by (simp add: take_map [symmetric])
  qed
  have 3: "sorted_wrt (\<lambda>a b. r_value b \<le> r_value a) rows"
    unfolding rows by (rule descending_limit)
  have 4: "length rows = min n (card (spec_keys M))"
    unfolding rows limit_stage_def
    by (simp add: length_sort_stage length_group_stage min.commute)
  have 5: "\<forall>k\<in>spec_keys M. k \<notin> r_id ` set rows \<longrightarrow>
            (\<forall>r\<in>set rows. spec_totalCount k M \<le> r_value r)"
  proof (intro ballI impI)
    fix k r
    assume k: "k \<in> spec_keys M" and out: "k \<notin> r_id ` set rows" and r: "r \<in> set rows"
    let ?b = "spec_row M k"
    from k have b: "?b \<in> set (group_stage M)" by (simp add: set_group_stage)
    have "r_id ?b = k" by (simp add: spec_row_def)
    with out have "?b \<notin> set rows" by force
    with r b have "r_value ?b \<le> r_value r"
      unfolding rows by (intro dropped_below_kept)
    then show "spec_totalCount k M \<le> r_value r" by (simp add: spec_row_def)
  qed
  from 1 2 3 4 5 show ?thesis by blast
qed

lemma aggregate_ranking_store:
  "aggregateEntities (Some 1000) (Some 2000) (Some 2) ranking_store =
     [\<lparr> r_id = ''nasa'', r_value = 80, r_sentiment = - 1 / 2 \<rparr>,
      \<lparr> r_id = ''ibm'', r_value = 50, r_sentiment = 3 / 8 \<rparr>]"
  by (simp add: aggregateEntities_def aggregate_matched_def ranking_store_def mention_def
      or_default_def date_in_def group_stage_def entity_key_def new_group_def add_to_group_def
      toLower_def toLower_char_def upper_letters_def lower_letters_def finish_group_def
      sort_stage_def limit_stage_def)

text \<open>
  The theorem on \<open>ranking_store\<close>, for the window from 1000 to 2000 and the limit 2:
  the groups with the sums 80 and 50 of the sums 50, 30, 80 and 10, in that order.
\<close>

theorem aggregateEntities_ranking_witness:
  "aggregateEntities (Some 1000) (Some 2000) (Some 2) ranking_store =
     [\<lparr> r_id = ''nasa'', r_value = 80, r_sentiment = - 1 / 2 \<rparr>,
      \<lparr> r_id = ''ibm'', r_value = 50, r_sentiment = 3 / 8 \<rparr>] \<and>
   spec_row (spec_window 1000 2000 ranking_store) ''ibm'' =
     \<lparr> r_id = ''ibm'', r_value = 50, r_sentiment = 3 / 8 \<rparr> \<and>
   map e_text (spec_members ''ibm'' (spec_window 1000 2000 ranking_store)) = [''IBM'', ''ibm''] \<and>
   length (aggregateEntities (Some 1000) (Some 2000) (Some 2) ranking_store) =
     min 2 (card (spec_keys (spec_window 1000 2000 ranking_store))) \<and>
   sorted_wrt (\<lambda>a b. r_value b \<le> r_value a)
     (aggregateEntities (Some 1000) (Some 2000) (Some 2) ranking_store)"
proof -
  have h: "(2::nat) \<noteq> 0" "(2000::int) \<noteq> 0" by simp_all
  note t = aggregateEntities_ranking [OF h refl refl, of 1000 ranking_store]
  have 1: "spec_row (spec_window 1000 2000 ranking_store) ''ibm'' =
     \<lparr> r_id = ''ibm'', r_value = 50, r_sentiment = 3 / 8 \<rparr>"
    by (simp add: spec_row_def spec_window_def spec_totalCount_def spec_averageSentiment_def
        spec_members_def ranking_store_def mention_def toLower_def toLower_char_def
        upper_letters_def lower_letters_def)
  have 2: "map e_text (spec_members ''ibm'' (spec_window 1000 2000 ranking_store)) = [''IBM'', ''ibm'']"
    by (simp add: spec_window_def spec_members_def ranking_store_def mention_def toLower_def
        toLower_char_def upper_letters_def lower_letters_def)
  from t 1 2 aggregate_ranking_store show ?thesis by simp
qed

text \<open>
  Claim C5 as stated fails for the limit 0, which \<open>limit || 100\<close> replaces: the
  result has four groups.
\<close>

theorem aggregateEntities_limit_zero_not_truncated:
  "aggregateEntities (Some 1000) (Some 2000) (Some 0) ranking_store =
     [\<lparr> r_id = ''nasa'', r_value = 80, r_sentiment = - 1 / 2 \<rparr>,
      \<lparr> r_id = ''ibm'', r_value = 50, r_sentiment = 3 / 8 \<rparr>,
      \<lparr> r_id = ''obama'', r_value = 30, r_sentiment = 0 \<rparr>,
      \<lparr> r_id = ''fifa'', r_value = 10, r_sentiment = - 1 \<rparr>] \<and>
   \<not> length (aggregateEntities (Some 1000) (Some 2000) (Some 0) ranking_store) \<le> 0"
  by (simp add: aggregateEntities_def aggregate_matched_def ranking_store_def mention_def
      or_default_def date_in_def group_stage_def entity_key_def new_group_def add_to_group_def
      toLower_def toLower_char_def upper_letters_def lower_letters_def finish_group_def
      sort_stage_def limit_stage_def)

section \<open>Properties of the time window and of the defaults\<close>

lemma or_default_simps:
  "or_default None d = d"
  "or_default (Some 0) d = d"
  "n \<noteq> 0 \<Longrightarrow> or_default (Some n) d = n"
  "or_default (Some n) 0 = n"
  by (simp_all add: or_default_def)

lemma aggregate_matched_iff:
  "m \<in> set (aggregate_matched start end_arg s) \<longleftrightarrow>
     m \<in> set (entities s) \<and> or_default start 0 \<le> e_date m \<and>
     e_date m < or_default end_arg 9999999999999"
  by (auto simp: aggregate_matched_def date_in_def)

lemma lookup_matched_iff:
  "m \<in> set (lookup_matched re start end_arg s) \<longleftrightarrow>
     m \<in> set (entities s) \<and> regex_test re (e_text m) \<and> or_default start 0 \<le> e_date m \<and>
     e_date m < or_default end_arg 9999999999999"
  by (auto simp: lookup_matched_def date_in_def)

lemma aggregate_matched_snoc_at_end:
  "e_date m = or_default end_arg 9999999999999 \<Longrightarrow>
   aggregate_matched start end_arg (s \<lparr> entities := entities s @ [m] \<rparr>) =
   aggregate_matched start end_arg s"
  by (simp add: aggregate_matched_def date_in_def)

lemma lookup_matched_snoc_at_end:
  "e_date m = or_default end_arg 9999999999999 \<Longrightarrow>
   lookup_matched re start end_arg (s \<lparr> entities := entities s @ [m] \<rparr>) =
   lookup_matched re start end_arg s"
  by (simp add: lookup_matched_def date_in_def)

text \<open>
  Claim C6, as amended. Both queries select on the half-open window from the start to
  the end as the code has them after the defaults: an end that is absent or 0 is
  9999999999999. For an end that is not 0, a mention dated exactly at the end does not
  pass the match stage of either query, and adding such a mention to the store changes
  the result of neither \<open>aggregateEntities\<close> nor \<open>getArticleIdsForEntity\<close>; with
  the default end, a mention dated 9999999999999 is excluded. A stored mention dated
  exactly at the start passes the match stage of \<open>aggregateEntities\<close> whenever the
  start is before the end (after its default), and that of \<open>getArticleIdsForEntity\<close>
  when its text matches as well.
\<close>

theorem window_half_open:
  "(t_end \<noteq> 0 \<and> e_date m = t_end \<longrightarrow>
      m \<notin> set (aggregate_matched start (Some t_end) s) \<and>
      m \<notin> set (lookup_matched re start (Some t_end) s) \<and>
      aggregateEntities start (Some t_end) limit (s \<lparr> entities := entities s @ [m] \<rparr>) =
        aggregateEntities start (Some t_end) limit s \<and>
      getArticleIdsForEntity entity start (Some t_end) (s \<lparr> entities := entities s @ [m] \<rparr>) =
        getArticleIdsForEntity entity start (Some t_end) s) \<and>
   (e_date m = 9999999999999 \<longrightarrow>
      m \<notin> set (aggregate_matched start None s) \<and>
      m \<notin> set (lookup_matched re start None s)) \<and>
   (m \<in> set (entities s) \<and> e_date m = t_start \<and> t_start < or_default end_arg 9999999999999 \<longrightarrow>
      m \<in> set (aggregate_matched (Some t_start) end_arg s) \<and>
      (regex_test re (e_text m) \<longrightarrow> m \<in> set (lookup_matched re (Some t_start) end_arg s)))"
proof (intro conjI impI)
  assume h: "t_end \<noteq> 0 \<and> e_date m = t_end"
  then show "m \<notin> set (aggregate_matched start (Some t_end) s)"
    by (simp add: aggregate_matched_iff or_default_simps)
  from h show "m \<notin> set (lookup_matched re start (Some t_end) s)"
    by (simp add: lookup_matched_iff or_default_simps)
  from h have e: "e_date m = or_default (Some t_end) 9999999999999"
    by (simp add: or_default_simps)
  show "aggregateEntities start (Some t_end) limit (s \<lparr> entities := entities s @ [m] \<rparr>) =
        aggregateEntities start (Some t_end) limit s"
    by (simp only: aggregateEntities_def aggregate_matched_snoc_at_end [OF e])
  show "getArticleIdsForEntity entity start (Some t_end) (s \<lparr> entities := entities s @ [m] \<rparr>) =
        getArticleIdsForEntity entity start (Some t_end) s"
    by (simp only: getArticleIdsForEntity_def lookup_matched_snoc_at_end [OF e])
next
  assume "e_date m = 9999999999999"
  then show "m \<notin> set (aggregate_matched start None s)"
      "m \<notin> set (lookup_matched re start None s)"
    by (simp_all add: aggregate_matched_iff lookup_matched_iff or_default_simps)
next
  assume h: "m \<in> set (entities s) \<and> e_date m = t_start \<and> t_start < or_default end_arg 9999999999999"
  then show "m \<in> set (aggregate_matched (Some t_start) end_arg s)"
    by (simp add: aggregate_matched_iff or_default_simps)
  assume "regex_test re (e_text m)"
  with h show "m \<in> set (lookup_matched re (Some t_start) end_arg s)"
    by (simp add: lookup_matched_iff or_default_simps)
qed


lemma RegExp_i_ibm:
  "RegExp_i ''^ibm$'' =
     Some [[Assert_start, Lit CHR ''i'', Lit CHR ''b'', Lit CHR ''m'', Assert_end]]"
  by (simp add: RegExp_i_def outside_fragment_def term_of_char_def)

lemma regex_test_ibm:
  "regex_test [[Assert_start, Lit CHR ''i'', Lit CHR ''b'', Lit CHR ''m'', Assert_end]] ''IBM''"
  by (simp add: regex_test_def canonicalize_def upper_letters_def lower_letters_def)

text \<open>
  The theorem on \<open>ranking_store\<close> for the window from 1000 to 2000: the mention of
  ``FIFA'' dated 2000 is out, the mention of ``IBM'' dated 1000 is in.
\<close>

theorem window_half_open_witness:
  "e_date (mention ''FIFA'' ''doc4'' 1000 (- 1) 2000) = 2000 \<and>
   mention ''FIFA'' ''doc4'' 1000 (- 1) 2000 \<in> set (entities ranking_store) \<and>
   mention ''FIFA'' ''doc4'' 1000 (- 1) 2000
     \<notin> set (aggregate_matched (Some 1000) (Some 2000) ranking_store) \<and>
   e_date (mention ''IBM'' ''doc1'' 30 (1 / 2) 1000) = 1000 \<and>
   mention ''IBM'' ''doc1'' 30 (1 / 2) 1000
     \<in> set (aggregate_matched (Some 1000) (Some 2000) ranking_store) \<and>
   mention ''IBM'' ''doc1'' 30 (1 / 2) 1000
     \<in> set (lookup_matched [[Assert_start, Lit CHR ''i'', Lit CHR ''b'', Lit CHR ''m'', Assert_end]]
          (Some 1000) (Some 2000) ranking_store)"
proof -
  let ?re = "[[Assert_start, Lit CHR ''i'', Lit CHR ''b'', Lit CHR ''m'', Assert_end]]"
  let ?fifa = "mention ''FIFA'' ''doc4'' 1000 (- 1) 2000"
  let ?ibm = "mention ''IBM'' ''doc1'' 30 (1 / 2) 1000"
  have 1: "e_date ?fifa = 2000" "?fifa \<in> set (entities ranking_store)"
    by (simp_all add: mention_def ranking_store_def)
  have 2: "e_date ?ibm = 1000" "?ibm \<in> set (entities ranking_store)"
      "(1000::int) < or_default (Some 2000) 9999999999999"
    by (simp_all add: mention_def ranking_store_def or_default_def)
  have 3: "regex_test ?re (e_text ?ibm)"
    using regex_test_ibm by (simp add: mention_def)
  from window_half_open [of 2000 ?fifa "Some 1000" ranking_store ?re None "''ibm''" 1000 "Some 2000"] 1
  have a: "?fifa \<notin> set (aggregate_matched (Some 1000) (Some 2000) ranking_store)"
    by simp
  from window_half_open [of 2000 ?ibm "Some 1000" ranking_store ?re None "''ibm''" 1000 "Some 2000"] 2 3
  have b: "?ibm \<in> set (aggregate_matched (Some 1000) (Some 2000) ranking_store)"
      "?ibm \<in> set (lookup_matched ?re (Some 1000) (Some 2000) ranking_store)"
    by blast+
  from 1 2 a b show ?thesis by blast
qed

lemma lookup_epoch_store:
  "getArticleIdsForEntity ''ibm'' (Some (- 86400000)) (Some 0) epoch_store = Inr [''doc0'']"
  by (simp add: getArticleIdsForEntity_def RegExp_i_ibm lookup_matched_def epoch_store_def
      mention_def regex_test_def canonicalize_def upper_letters_def lower_letters_def
      or_default_def date_in_def push_stage_def)

text \<open>
  Claim C6 as stated fails for the end 0, which \<open>end || 9999999999999\<close> replaces: in
  the window from one day before the epoch to the epoch, the mention dated exactly at
  the end (0) is included by both queries.
\<close>

theorem window_end_zero_not_excluded:
  "e_date (mention ''IBM'' ''doc0'' 1 0 0) = 0 \<and>
   mention ''IBM'' ''doc0'' 1 0 0 \<in> set (aggregate_matched (Some (- 86400000)) (Some 0) epoch_store) \<and>
   aggregateEntities (Some (- 86400000)) (Some 0) None epoch_store =
     [\<lparr> r_id = ''ibm'', r_value = 1, r_sentiment = 0 \<rparr>] \<and>
   getArticleIdsForEntity ''ibm'' (Some (- 86400000)) (Some 0) epoch_store = Inr [''doc0'']"
  by (simp add: lookup_epoch_store)
     (simp add: aggregateEntities_def aggregate_matched_def epoch_store_def mention_def
      or_default_def date_in_def group_stage_def entity_key_def new_group_def add_to_group_def
      toLower_def toLower_char_def upper_letters_def lower_letters_def finish_group_def
      sort_stage_def limit_stage_def)

section \<open>Falsy arguments\<close>

text \<open>
  Claim C10. A limit of 0 gives what an absent limit gives, the result for the limit
  100, whose length is the smaller of 100 and the number of groups (not zero). An end
  of 0 gives what an absent end gives, the result for the end 9999999999999, and the
  default window has no mention dated at or after that instant. A start of 0 gives what
  an absent start gives, and no mention before the epoch. The same holds for the start
  and the end of \<open>getArticleIdsForEntity\<close>.
\<close>

theorem falsy_arguments_default:
  "aggregateEntities start end_arg (Some 0) s = aggregateEntities start end_arg None s \<and>
   aggregateEntities start end_arg None s = aggregateEntities start end_arg (Some 100) s \<and>
   length (aggregateEntities start end_arg (Some 0) s) =
     min 100 (card (spec_keys (aggregate_matched start end_arg s))) \<and>
   aggregateEntities start (Some 0) limit s = aggregateEntities start None limit s \<and>
   aggregateEntities start None limit s = aggregateEntities start (Some 9999999999999) limit s \<and>
   aggregateEntities (Some 0) end_arg limit s = aggregateEntities None end_arg limit s \<and>
   getArticleIdsForEntity entity start (Some 0) s = getArticleIdsForEntity entity start None s \<and>
   getArticleIdsForEntity entity start None s =
     getArticleIdsForEntity entity start (Some 9999999999999) s \<and>
   getArticleIdsForEntity entity (Some 0) end_arg s = getArticleIdsForEntity entity None end_arg s \<and>
   list_all (\<lambda>m. e_date m < 9999999999999) (aggregate_matched start None s) \<and>
   list_all (\<lambda>m. e_date m < 9999999999999) (aggregate_matched start (Some 0) s) \<and>
   list_all (\<lambda>m. 0 \<le> e_date m) (aggregate_matched None end_arg s) \<and>
   list_all (\<lambda>m. 0 \<le> e_date m) (aggregate_matched (Some 0) end_arg s)"
proof -
  have len: "length (aggregateEntities start end_arg (Some 0) s) =
     min 100 (card (spec_keys (aggregate_matched start end_arg s)))"
    by (simp add: aggregateEntities_def or_default_def limit_stage_def length_sort_stage
        length_group_stage min.commute)
  have agg: "aggregateEntities start end_arg (Some 0) s = aggregateEntities start end_arg None s"
      "aggregateEntities start end_arg None s = aggregateEntities start end_arg (Some 100) s"
      "aggregateEntities start (Some 0) limit s = aggregateEntities start None limit s"
      "aggregateEntities start None limit s = aggregateEntities start (Some 9999999999999) limit s"
      "aggregateEntities (Some 0) end_arg limit s = aggregateEntities None end_arg limit s"
    by (simp_all add: aggregateEntities_def aggregate_matched_def or_default_def)
  have get: "getArticleIdsForEntity entity start (Some 0) s = getArticleIdsForEntity entity start None s"
      "getArticleIdsForEntity entity start None s =
         getArticleIdsForEntity entity start (Some 9999999999999) s"
      "getArticleIdsForEntity entity (Some 0) end_arg s = getArticleIdsForEntity entity None end_arg s"
    by (simp_all add: getArticleIdsForEntity_def lookup_matched_def or_default_def
        cong: option.case_cong)
  have win: "list_all (\<lambda>m. e_date m < 9999999999999) (aggregate_matched start None s)"
      "list_all (\<lambda>m. e_date m < 9999999999999) (aggregate_matched start (Some 0) s)"
      "list_all (\<lambda>m. 0 \<le> e_date m) (aggregate_matched None end_arg s)"
      "list_all (\<lambda>m. 0 \<le> e_date m) (aggregate_matched (Some 0) end_arg s)"
    by (simp_all add: list_all_iff aggregate_matched_iff or_default_simps)
  from len agg get win show ?thesis by blast
qed

text \<open>
  The theorem on \<open>ranking_store\<close>: the limit 0 yields all four groups of the window,
  and the end 0 yields the mentions of every date.
\<close>

theorem falsy_arguments_default_witness:
  "aggregateEntities (Some 1000) (Some 2000) (Some 0) ranking_store =
     aggregateEntities (Some 1000) (Some 2000) None ranking_store \<and>
   length (aggregateEntities (Some 1000) (Some 2000) (Some 0) ranking_store) = 4 \<and>
   aggregateEntities None (Some 0) (Some 1) ranking_store =
     [\<lparr> r_id = ''fifa'', r_value = 1010, r_sentiment = - 1 \<rparr>]"
proof -
  note t = falsy_arguments_default [of "Some 1000" "Some 2000" ranking_store "Some 1" "''ibm''"]
  have k: "length (aggregateEntities (Some 1000) (Some 2000) None ranking_store) = 4"
    by (simp add: aggregateEntities_def aggregate_matched_def ranking_store_def mention_def
      or_default_def date_in_def group_stage_def entity_key_def new_group_def add_to_group_def
      toLower_def toLower_char_def upper_letters_def lower_letters_def finish_group_def
      sort_stage_def limit_stage_def)
  have z: "aggregateEntities None (Some 0) (Some 1) ranking_store =
     [\<lparr> r_id = ''fifa'', r_value = 1010, r_sentiment = - 1 \<rparr>]"
    by (simp add: aggregateEntities_def aggregate_matched_def ranking_store_def mention_def
      or_default_def date_in_def group_stage_def entity_key_def new_group_def add_to_group_def
      toLower_def toLower_char_def upper_letters_def lower_letters_def finish_group_def
      sort_stage_def limit_stage_def)
  from t k z show ?thesis by simp
qed

section \<open>Properties of the lookup\<close>

lemma getArticleIdsForEntity_no_group:
  assumes "RegExp_i (''^'' @ entity @ ''$'') = Some re"
    and "lookup_matched re start end_arg s = []"
  shows "getArticleIdsForEntity entity start end_arg s = Inl TypeError"
  using assms by (simp add: getArticleIdsForEntity_def push_stage_def)

lemma push_add_nonempty: "push_add e gs \<noteq> []"
  by (cases gs) (auto split: if_splits)

lemma push_add_values:
  "(\<forall>g\<in>set gs. snd g \<noteq> []) \<Longrightarrow> (\<forall>g\<in>set (push_add e gs). snd g \<noteq> [])"
  by (induction gs) (fastforce split: if_splits)+

lemma push_stage_values: "\<forall>g\<in>set (push_stage es). snd g \<noteq> []"
proof (induction es rule: rev_induct)
  case Nil
  then show ?case by (simp add: push_stage_def)
next
  case (snoc e es)
  then have "\<forall>g\<in>set (push_add e (push_stage es)). snd g \<noteq> []"
    by (rule push_add_values)
  then show ?case by (simp add: push_stage_def)
qed

lemma push_stage_empty_iff: "push_stage es = [] \<longleftrightarrow> es = []"
proof (cases es rule: rev_cases)
  case Nil
  then show ?thesis by (simp add: push_stage_def)
next
  case (snoc ys y)
  then show ?thesis by (simp add: push_stage_def push_add_nonempty)
qed

lemma getArticleIdsForEntity_never_empty_result:
  "getArticleIdsForEntity entity start end_arg s \<noteq> Inr []"
proof (cases "RegExp_i (''^'' @ entity @ ''$'')")
  case None
  then show ?thesis by (simp add: getArticleIdsForEntity_def)
next
  case (Some re)
  show ?thesis
  proof (cases "push_stage (lookup_matched re start end_arg s)")
    case Nil
    with Some show ?thesis by (simp add: getArticleIdsForEntity_def)
  next
    case (Cons g gs)
    from push_stage_values [of "lookup_matched re start end_arg s"]
    have "snd g \<noteq> []" unfolding Cons by simp
    with Some Cons show ?thesis by (simp add: getArticleIdsForEntity_def)
  qed
qed

lemma RegExp_i_obama:
  "RegExp_i ''^obama$'' =
     Some [[Assert_start, Lit CHR ''o'', Lit CHR ''b'', Lit CHR ''a'', Lit CHR ''m'', Lit CHR ''a'',
            Assert_end]]"
  by (simp add: RegExp_i_def outside_fragment_def term_of_char_def)

text \<open>
  Claim C1 does not hold of the code. No mention of \<open>lookup_store\<close> has the text
  ``obama'', and \<open>empty_store\<close> has no mention at all; the pipeline yields no group,
  \<open>res[0]\<close> is undefined and the read of \<open>res[0].value\<close> throws, where the claim
  has the empty set as the result. (By \<open>getArticleIdsForEntity_never_empty_result\<close>
  the empty list is the result for no input.)
\<close>

theorem getArticleIdsForEntity_no_match_throws:
  "getArticleIdsForEntity ''obama'' None None lookup_store = Inl TypeError \<and>
   getArticleIdsForEntity ''obama'' None None empty_store = Inl TypeError"
  by (simp add: getArticleIdsForEntity_def RegExp_i_obama lookup_matched_def lookup_store_def
      empty_store_def mention_def regex_test_def canonicalize_def upper_letters_def
      lower_letters_def or_default_def date_in_def push_stage_def)

text \<open>
  Only the first group is read: of the two mentions whose text is ``ibm'' up to case,
  in two articles, the result has the article of the first spelling only.
\<close>

lemma getArticleIdsForEntity_first_group_only:
  "getArticleIdsForEntity ''ibm'' None None ranking_store = Inr [''doc1''] \<and>
   map e_article_id
     (lookup_matched [[Assert_start, Lit CHR ''i'', Lit CHR ''b'', Lit CHR ''m'', Assert_end]]
        None None ranking_store) = [''doc1'', ''doc2'']"
  by (simp add: getArticleIdsForEntity_def RegExp_i_ibm lookup_matched_def ranking_store_def
      mention_def regex_test_def canonicalize_def upper_letters_def
      lower_letters_def or_default_def date_in_def push_stage_def)

lemma RegExp_i_US:
  "RegExp_i ''^U.S.$'' =
     Some [[Assert_start, Lit CHR ''U'', Any_char, Lit CHR ''S'', Any_char, Assert_end]]"
  by (simp add: RegExp_i_def outside_fragment_def term_of_char_def)

text \<open>
  Claim C7 does not hold of the code. The entity text is taken as a pattern, and its
  characters with a meaning in a pattern are not escaped: the query for ``U.S.''
  returns the article of the mention ``USSR'', whose text is not ``U.S.'' in any case.
\<close>

theorem getArticleIdsForEntity_pattern_not_escaped:
  "getArticleIdsForEntity ''U.S.'' None None lookup_store = Inr [''doc9''] \<and>
   map e_text (entities lookup_store) = [''USSR'', ''bankrupt'', ''Bank''] \<and>
   map e_article_id (entities lookup_store) = [''doc9'', ''doc8'', ''doc7''] \<and>
   toLower ''USSR'' \<noteq> toLower ''U.S.''"
  by (simp add: getArticleIdsForEntity_def RegExp_i_US lookup_matched_def lookup_store_def
      mention_def regex_test_def canonicalize_def upper_letters_def line_terminator_def
      lower_letters_def or_default_def date_in_def push_stage_def toLower_def toLower_char_def)

lemma RegExp_i_bank:
  "RegExp_i ''^bank$'' =
     Some [[Assert_start, Lit CHR ''b'', Lit CHR ''a'', Lit CHR ''n'', Lit CHR ''k'', Assert_end]]"
  by (simp add: RegExp_i_def outside_fragment_def term_of_char_def)

lemma getArticleIdsForEntity_bank:
  "getArticleIdsForEntity ''bank'' None None lookup_store = Inr [''doc7'']"
  by (simp add: getArticleIdsForEntity_def RegExp_i_bank lookup_matched_def lookup_store_def
      mention_def regex_test_def canonicalize_def upper_letters_def line_terminator_def
      lower_letters_def or_default_def date_in_def push_stage_def)

text \<open>An entity text without syntax characters is matched as a whole, ignoring case.\<close>

lemma split_bar_plain: "list_all (\<lambda>c. c \<noteq> CHR ''|'') cs \<Longrightarrow> split_bar cs = [cs]"
  by (induction cs) auto

lemma parse_alternative_supported:
  "list_all (\<lambda>c. c \<notin> set outside_fragment) cs \<Longrightarrow>
   parse_alternative cs = Some (map term_of_char cs)"
  by (induction cs) auto

lemma term_of_char_plain:
  "list_all (\<lambda>c. c \<notin> set ''^$.|'') cs \<Longrightarrow> map term_of_char cs = map Lit cs"
  by (induction cs) (auto simp: term_of_char_def)

lemma RegExp_i_plain:
  assumes "plain entity"
  shows "RegExp_i (''^'' @ entity @ ''$'') = Some [Assert_start # map Lit entity @ [Assert_end]]"
proof -
  from assms have 1: "list_all (\<lambda>c. c \<noteq> CHR ''|'') (''^'' @ entity @ ''$'')"
    by (auto simp: plain_def list_all_iff)
  from assms have 2: "list_all (\<lambda>c. c \<notin> set outside_fragment) (''^'' @ entity @ ''$'')"
    by (auto simp: plain_def list_all_iff outside_fragment_def)
  from assms have 3: "map term_of_char entity = map Lit entity"
    by (intro term_of_char_plain) (auto simp: plain_def list_all_iff)
  let ?src = "''^'' @ entity @ ''$''"
  have "RegExp_i ?src = those (map parse_alternative [?src])"
    by (simp only: RegExp_i_def split_bar_plain [OF 1])
  also have "\<dots> = those [Some (map term_of_char ?src)]"
    by (simp only: list.map parse_alternative_supported [OF 2])
  also have "\<dots> = Some [map term_of_char ?src]" by simp
  finally show ?thesis using 3 by (simp add: term_of_char_def)
qed

lemma match_literals:
  "match_terms (map Lit cs @ [Assert_end]) t i \<longleftrightarrow>
     i \<le> length t \<and> map canonicalize (drop i t) = map canonicalize cs"
proof (induction cs arbitrary: i)
  case Nil
  then show ?case by auto
next
  case (Cons c cs)
  show ?case
  proof (cases "i < length t")
    case True
    then have "drop i t = t ! i # drop (Suc i) t" by (simp add: Cons_nth_drop_Suc)
    with True show ?thesis by (auto simp: Cons.IH)
  next
    case False
    then show ?thesis by simp
  qed
qed

lemma regex_test_anchored:
  "regex_test [Assert_start # ts] t \<longleftrightarrow> match_terms ts t 0"
proof -
  have "regex_test [Assert_start # ts] t \<longleftrightarrow>
        (\<exists>i\<in>set [0..<Suc (length t)]. i = 0 \<and> match_terms ts t i)"
    by (simp add: regex_test_def list_ex_iff)
  also have "\<dots> \<longleftrightarrow> match_terms ts t 0" by auto
  finally show ?thesis .
qed

text \<open>
  For an entity text without syntax characters the match is as claim C7 says: the
  pattern is well-formed, and a text matches if and only if it is the entity text up
  to the case of its letters.
\<close>

theorem plain_entity_whole_string:
  assumes "plain entity"
  shows "\<exists>re. RegExp_i (''^'' @ entity @ ''$'') = Some re \<and>
           (\<forall>t. regex_test re t \<longleftrightarrow> map canonicalize t = map canonicalize entity)"
  using RegExp_i_plain [OF assms] by (simp add: regex_test_anchored match_literals)


text \<open>The theorem at ``bank'': ``Bank'' matches and ``bankrupt'' does not.\<close>

theorem plain_entity_whole_string_witness:
  "plain ''bank'' \<and>
   (\<exists>re. RegExp_i (''^'' @ ''bank'' @ ''$'') = Some re \<and>
      regex_test re ''Bank'' \<and> \<not> regex_test re ''bankrupt'')"
proof -
  have p: "plain ''bank''"
    by (simp add: plain_def outside_fragment_def)
  from plain_entity_whole_string [OF p] obtain re
    where re: "RegExp_i (''^'' @ ''bank'' @ ''$'') = Some re"
      and m: "\<And>t. regex_test re t \<longleftrightarrow> map canonicalize t = map canonicalize ''bank''"
    by blast
  have "regex_test re ''Bank''" "\<not> regex_test re ''bankrupt''"
    by (simp_all add: m canonicalize_def upper_letters_def lower_letters_def)
  with p re show ?thesis by blast
qed

end
